theory Spec2Isabelle
  imports Main "HOL-Library.Sublist"
begin

section \<open>Strings\<close>

text \<open>
  Python strings are modelled as \<^typ>\<open>string\<close>. The helpers below are the string
  methods the program calls: \<open>str.startswith\<close>, \<open>str.endswith\<close>, \<open>str.split(sep)\<close>,
  \<open>sep.join(xs)\<close>, \<open>str.replace\<close> for a one-character separator, \<open>str.strip()\<close>,
  \<open>str.lower()\<close> (on the ASCII letters) and \<open>str.rfind\<close> for one character.
\<close>

definition startswith :: "string \<Rightarrow> string \<Rightarrow> bool" where
  "startswith s p = (take (length p) s = p)"

definition endswith :: "string \<Rightarrow> string \<Rightarrow> bool" where
  "endswith s p = (length p \<le> length s \<and> drop (length s - length p) s = p)"

fun split :: "char \<Rightarrow> string \<Rightarrow> string list" where
  "split sep [] = [[]]"
| "split sep (c # cs) =
     (if c = sep then [] # split sep cs
      else (case split sep cs of [] \<Rightarrow> [[c]] | w # ws \<Rightarrow> (c # w) # ws))"

fun str_join :: "string \<Rightarrow> string list \<Rightarrow> string" where
  "str_join sep [] = []"
| "str_join sep [x] = x"
| "str_join sep (x # y # ys) = x @ sep @ str_join sep (y # ys)"

definition replace_char :: "string \<Rightarrow> char \<Rightarrow> char \<Rightarrow> string" where
  "replace_char s old new = map (\<lambda>c. if c = old then new else c) s"

definition isspace :: "char \<Rightarrow> bool" where
  "isspace c = (let n = (of_char c :: nat) in (9 \<le> n \<and> n \<le> 13) \<or> (28 \<le> n \<and> n \<le> 32))"

definition strip :: "string \<Rightarrow> string" where
  "strip s = rev (dropWhile isspace (rev (dropWhile isspace s)))"

definition lower_char :: "char \<Rightarrow> char" where
  "lower_char c =
     (case map_of (zip ''ABCDEFGHIJKLMNOPQRSTUVWXYZ'' ''abcdefghijklmnopqrstuvwxyz'') c of
        Some l \<Rightarrow> l
      | None \<Rightarrow> c)"

definition lower :: "string \<Rightarrow> string" where
  "lower s = map lower_char s"

definition rfind :: "string \<Rightarrow> char \<Rightarrow> int" where
  "rfind s c =
     (if c \<in> set s then int (length s) - 1 - int (length (takeWhile (\<lambda>x. x \<noteq> c) (rev s)))
      else - 1)"

section \<open>Path functions (posixpath)\<close>

text \<open>
  The program runs on a POSIX host here: \<open>os.sep\<close> is \<open>/\<close>, and \<open>os.path\<close> is
  \<open>posixpath\<close>. \<open>os.getcwd()\<close> is the parameter \<open>cwd\<close> of the functions that
  need it.
\<close>

definition os_sep :: char where
  "os_sep = CHR ''/''"

definition join :: "string \<Rightarrow> string \<Rightarrow> string" where
  "join a b =
     (if startswith b [os_sep] then b
      else if a = [] \<or> endswith a [os_sep] then a @ b
      else a @ [os_sep] @ b)"

definition basename :: "string \<Rightarrow> string" where
  "basename p = drop (nat (rfind p os_sep + 1)) p"

text \<open>
  \<open>os.path.splitext\<close>: the extension starts at the last dot of the last component,
  unless that component has only dots before it.
\<close>

definition splitext :: "string \<Rightarrow> string \<times> string" where
  "splitext p =
     (let sepIndex = rfind p os_sep;
          dotIndex = rfind p (CHR ''.'')
      in if dotIndex > sepIndex \<and>
            list_ex (\<lambda>c. c \<noteq> CHR ''.'')
              (take (nat (dotIndex - (sepIndex + 1))) (drop (nat (sepIndex + 1)) p))
         then (take (nat dotIndex) p, drop (nat dotIndex) p)
         else (p, []))"

definition normpath_step :: "bool \<Rightarrow> string list \<Rightarrow> string \<Rightarrow> string list" where
  "normpath_step initial_slashes new_comps part =
     (if part = [] \<or> part = ''.'' then new_comps
      else if part \<noteq> ''..'' \<or> (\<not> initial_slashes \<and> new_comps = []) \<or>
              (new_comps \<noteq> [] \<and> last new_comps = ''..'')
           then new_comps @ [part]
      else if new_comps \<noteq> [] then butlast new_comps
      else new_comps)"

definition normpath :: "string \<Rightarrow> string" where
  "normpath path =
     (if path = [] then ''.''
      else
        let initial_slashes =
              (if startswith path ''/'' then
                 (if startswith path ''//'' \<and> \<not> startswith path ''///'' then 2 else 1 :: nat)
               else 0);
            comps = foldl (normpath_step (initial_slashes \<noteq> 0)) [] (split os_sep path);
            path' = replicate initial_slashes os_sep @ str_join [os_sep] comps
        in if path' = [] then ''.'' else path')"

definition abspath :: "string \<Rightarrow> string \<Rightarrow> string" where
  "abspath cwd path = normpath (if startswith path [os_sep] then path else join cwd path)"

fun commonprefix :: "string list \<Rightarrow> string list \<Rightarrow> string list" where
  "commonprefix (x # xs) (y # ys) = (if x = y then x # commonprefix xs ys else [])"
| "commonprefix _ _ = []"

text \<open>
  \<open>os.path.relpath(path, start)\<close>. Python raises \<open>ValueError\<close> for an empty
  \<open>path\<close>; the traversal only passes paths joined from a directory path and an entry
  name, which are never empty on a real file system.
\<close>

definition relpath :: "string \<Rightarrow> string \<Rightarrow> string \<Rightarrow> string" where
  "relpath cwd path start =
     (let start_list = filter (\<lambda>x. x \<noteq> []) (split os_sep (abspath cwd start));
          path_list = filter (\<lambda>x. x \<noteq> []) (split os_sep (abspath cwd path));
          i = length (commonprefix start_list path_list);
          rel_list = replicate (length start_list - i) ''..'' @ drop i path_list
      in if rel_list = [] then ''.'' else foldl join (hd rel_list) (tl rel_list))"

section \<open>fnmatch\<close>

text \<open>
  \<open>fnmatch.fnmatch(name, pat)\<close> on POSIX (\<open>normcase\<close> is the identity): the pattern is
  translated to a sequence of items and matched against the whole name. \<open>*\<close> matches any
  run of characters, \<open>?\<close> one character, \<open>[seq]\<close> one character of \<open>seq\<close> (with
  ranges \<open>a-z\<close>), \<open>[!seq]\<close> one character not in it; a \<open>[\<close> with no closing \<open>]\<close> is
  an ordinary character. The closing bracket is searched as \<open>fnmatch.translate\<close> does: after
  an optional \<open>!\<close> and an optional first \<open>]\<close>.
\<close>

datatype glob = Star | AnyChar | Lit char | CharSet bool "(char \<times> char) list"

definition bracket_end :: "string \<Rightarrow> nat option" where
  "bracket_end s =
     (let j0 = (if take 1 s = ''!'' then 1 else 0 :: nat);
          j1 = (if take 1 (drop j0 s) = '']'' then j0 + 1 else j0);
          rest = drop j1 s
      in if CHR '']'' \<in> set rest
         then Some (j1 + length (takeWhile (\<lambda>c. c \<noteq> CHR '']'') rest))
         else None)"

fun ranges :: "string \<Rightarrow> (char \<times> char) list" where
  "ranges (a # m # b # rest) =
     (if m = CHR ''-'' then (a, b) # ranges rest else (a, a) # ranges (m # b # rest))"
| "ranges (a # rest) = (a, a) # ranges rest"
| "ranges [] = []"

definition charset :: "string \<Rightarrow> glob" where
  "charset stuff =
     (if take 1 stuff = ''!'' then CharSet True (ranges (drop 1 stuff))
      else CharSet False (ranges stuff))"

function translate :: "string \<Rightarrow> glob list" where
  "translate [] = []"
| "translate (c # rest) =
     (if c = CHR ''*'' then Star # translate rest
      else if c = CHR ''?'' then AnyChar # translate rest
      else if c = CHR ''['' then
        (case bracket_end rest of
           None \<Rightarrow> Lit c # translate rest
         | Some j \<Rightarrow> charset (take j rest) # translate (drop (j + 1) rest))
      else Lit c # translate rest)"
  by pat_completeness auto
termination
  by (relation "measure length") auto

definition in_charset :: "bool \<Rightarrow> (char \<times> char) list \<Rightarrow> char \<Rightarrow> bool" where
  "in_charset negated rs c =
     (list_ex (\<lambda>(lo, hi). (of_char lo :: nat) \<le> of_char c \<and> (of_char c :: nat) \<le> of_char hi) rs
        \<noteq> negated)"

fun glob_match :: "glob list \<Rightarrow> string \<Rightarrow> bool" where
  "glob_match [] s = (s = [])"
| "glob_match (Star # ts) [] = glob_match ts []"
| "glob_match (Star # ts) (c # s) = (glob_match ts (c # s) \<or> glob_match (Star # ts) s)"
| "glob_match (AnyChar # ts) (c # s) = glob_match ts s"
| "glob_match (Lit a # ts) (c # s) = (a = c \<and> glob_match ts s)"
| "glob_match (CharSet negated rs # ts) (c # s) = (in_charset negated rs c \<and> glob_match ts s)"
| "glob_match (_ # ts) [] = False"

definition fnmatch :: "string \<Rightarrow> string \<Rightarrow> bool" where
  "fnmatch name pat = glob_match (translate pat) name"

section \<open>Configuration\<close>

text \<open>
  \<open>INCLUDED_EXTENSIONS\<close> and \<open>DEFAULT_IGNORE_DIRS\<close> are Python sets. They are lists
  here, in the order of the source text; the program only tests membership and asks
  whether some element matches, so the order of iteration does not show in a result.
\<close>

definition INCLUDED_EXTENSIONS :: "string list" where
  "INCLUDED_EXTENSIONS =
     [''.py'', ''.js'', ''.ts'', ''.tsx'', ''.html'', ''.css'', ''.json'', ''.md'',
      ''.sql'', ''.go'', ''.rs'', ''.java'', ''.cpp'', ''.c'', ''.h'', ''.hpp'', ''.ino'',
      ''.txt'', ''.yaml'', ''.yml'', ''.toml'', ''.xml'', ''.sh'', ''.bat'', ''.env'']"

definition DEFAULT_IGNORE_DIRS :: "string list" where
  "DEFAULT_IGNORE_DIRS =
     [''.git'', ''node_modules'', ''venv'', ''.venv'', ''pycache'', ''__pycache__'',
      ''dist'', ''build'', ''.idea'', ''.vscode'', ''.gemini'',
      ''package-lock.json'', ''yarn.lock'', ''pnpm-lock.yaml'', ''bun.lockb'',
      ''images'', ''assets'', ''public'', ''test-results'', ''playwright-report'',
      ''coverage'', ''.next'', ''.nuxt'', ''target'',
      ''logs.txt'', ''*.log'', ''*.audit.json'']"

definition GEMINI_URL :: string where
  "GEMINI_URL = ''https://gemini.google.com/app''"

definition OUTPUT_FILENAME :: string where
  "OUTPUT_FILENAME = ''codebase_context.md''"

definition USER_PROMPT :: string where
  "USER_PROMPT =
     ''I have attached a file `codebase_context.md` which contains the full source code and directory structure of my project. \<newline>'' @
     ''\<newline>'' @
     ''**Instruction:**\<newline>'' @
     ''1.  **Analyze** the provided codebase to understand its architecture, tech stack, and key components.\<newline>'' @
     ''2.  **Act** as a Senior Software Architect and Coding Assistant for this specific project.\<newline>'' @
     ''3.  **Wait** for my next command. I will ask you to implement features, fix bugs, or explain code. When I do, provide concrete code examples and file modifications that fit the existing style and structure.\<newline>'' @
     ''\<newline>'' @
     ''Please confirm you have ingested the context and are ready.''"

definition META_PROMPT :: string where
  "META_PROMPT =
     ''# Codebase Context\<newline>'' @
     ''I am providing my codebase context below in this flattened markdown file. \<newline>'' @
     ''\<newline>'' @
     ''## Project Structure\<newline>'' @
     ''(See file paths below)\<newline>'' @
     ''\<newline>'' @
     ''---\<newline>''"

section \<open>The file system and the console\<close>

text \<open>
  A directory is the list of its entries in the order \<open>os.walk\<close> lists them. A file
  carries what opening and reading it in text mode gives: \<open>Inr\<close> the decoded text, or
  \<open>Inl\<close> the message of the exception raised. Every \<open>print\<close> of the program is one
  message of the console; the constructor names the format string and holds its arguments.
\<close>

datatype entry = File string "string + string" | Dir string "entry list"

datatype message =
    Scanning string
  | GitignoreWarning string
  | Packed string
  | SkippedReadError string string
  | NotADirectory string
  | NoMatchingFiles
  | Success nat nat string
  | ErrorOccurred string

section \<open>load\_gitignore\<close>

fun find_entry :: "string \<Rightarrow> entry list \<Rightarrow> entry option" where
  "find_entry name [] = None"
| "find_entry name (File n r # es) = (if n = name then Some (File n r) else find_entry name es)"
| "find_entry name (Dir n sub # es) = (if n = name then Some (Dir n sub) else find_entry name es)"

fun gitignore_lines :: "string list \<Rightarrow> string list" where
  "gitignore_lines [] = []"
| "gitignore_lines (l # ls) =
     (let line = strip l
      in if line \<noteq> [] \<and> \<not> startswith line ''#'' then line # gitignore_lines ls
         else gitignore_lines ls)"

text \<open>
  \<open>load_gitignore root_path\<close> reads the entry \<open>.gitignore\<close> of the root directory,
  whose entries are \<open>root\<close>. Opening a directory raises, as an unreadable file does; the
  exception is caught and printed. The result is the patterns and what was printed.
\<close>

definition load_gitignore :: "entry list \<Rightarrow> string list \<times> message list" where
  "load_gitignore root =
     (case find_entry ''.gitignore'' root of
        None \<Rightarrow> ([], [])
      | Some (File n (Inr text)) \<Rightarrow> (gitignore_lines (split (CHR ''\<newline>'') text), [])
      | Some (File n (Inl e)) \<Rightarrow> ([], [GitignoreWarning e])
      | Some (Dir n sub) \<Rightarrow> ([], [GitignoreWarning ''Is a directory''])) "

section \<open>is\_ignored\<close>

fun default_wildcards :: "string list \<Rightarrow> string \<Rightarrow> bool" where
  "default_wildcards [] name = False"
| "default_wildcards (pattern # ps) name =
     (if CHR ''*'' \<in> set pattern \<and> fnmatch name pattern then True
      else default_wildcards ps name)"

fun gitignore_loop :: "string list \<Rightarrow> string \<Rightarrow> string \<Rightarrow> bool \<Rightarrow> bool" where
  "gitignore_loop [] rel_path name isdir = False"
| "gitignore_loop (pattern # ps) rel_path name isdir =
     (if endswith pattern ''/'' \<and> isdir \<and>
         (fnmatch (rel_path @ ''/'') pattern \<or> fnmatch (name @ ''/'') pattern) then True
      else if fnmatch rel_path pattern \<or> fnmatch name pattern then True
      else gitignore_loop ps rel_path name isdir)"

text \<open>
  \<open>is_ignored(path, root_path, gitignore_patterns)\<close>; \<open>isdir\<close> is what
  \<open>os.path.isdir(path)\<close> returns.
\<close>

definition is_ignored :: "string \<Rightarrow> bool \<Rightarrow> string \<Rightarrow> string \<Rightarrow> string list \<Rightarrow> bool" where
  "is_ignored cwd isdir path root_path gitignore_patterns =
     (let name = basename path
      in if name \<in> set DEFAULT_IGNORE_DIRS then True
         else if default_wildcards DEFAULT_IGNORE_DIRS name then True
         else
           let rel_path = replace_char (relpath cwd path root_path) os_sep (CHR ''/'')
           in gitignore_loop gitignore_patterns rel_path name isdir)"

section \<open>scan\_and\_pack\<close>

record pack_state =
  outfile :: string
  file_count :: nat
  total_size :: nat
  console :: "message list"

definition section_text :: "string \<Rightarrow> string \<Rightarrow> string" where
  "section_text rel_path content =
     ''\<newline>## File: `'' @ rel_path @ ''`\<newline>\<newline>```\<newline>'' @ content @ ''\<newline>```\<newline>''"

text \<open>The body of the loop over \<open>filenames\<close>, for one file.\<close>

definition process_file ::
  "string \<Rightarrow> string \<Rightarrow> string list \<Rightarrow> string \<Rightarrow> string \<Rightarrow> string + string \<Rightarrow>
   pack_state \<Rightarrow> pack_state" where
  "process_file cwd root_path pats dirpath filename rd st =
     (let file_path = join dirpath filename;
          rel_path = relpath cwd file_path root_path
      in if filename = OUTPUT_FILENAME then st
         else if is_ignored cwd False file_path root_path pats then st
         else if lower (snd (splitext filename)) \<notin> set INCLUDED_EXTENSIONS then st
         else
           (case rd of
              Inr content \<Rightarrow>
                st\<lparr>outfile := outfile st @ section_text rel_path content,
                   file_count := file_count st + 1,
                   total_size := total_size st + length content,
                   console := console st @ [Packed rel_path]\<rparr>
            | Inl e \<Rightarrow> st\<lparr>console := console st @ [SkippedReadError rel_path e]\<rparr>))"

fun scan_files ::
  "string \<Rightarrow> string \<Rightarrow> string list \<Rightarrow> string \<Rightarrow> entry list \<Rightarrow> pack_state \<Rightarrow> pack_state" where
  "scan_files cwd root_path pats dirpath [] st = st"
| "scan_files cwd root_path pats dirpath (File filename rd # es) st =
     scan_files cwd root_path pats dirpath es
       (process_file cwd root_path pats dirpath filename rd st)"
| "scan_files cwd root_path pats dirpath (Dir d sub # es) st =
     scan_files cwd root_path pats dirpath es st"

text \<open>
  \<open>os.walk\<close>, top down, with the body of the loop: at a directory the files are
  processed in listing order, then each subdirectory that \<open>is_ignored\<close> did not remove from
  \<open>dirnames\<close> is walked, in listing order.
\<close>

fun walk ::
  "string \<Rightarrow> string \<Rightarrow> string list \<Rightarrow> string \<Rightarrow> entry list \<Rightarrow> pack_state \<Rightarrow> pack_state"
and walk_dirs ::
  "string \<Rightarrow> string \<Rightarrow> string list \<Rightarrow> string \<Rightarrow> entry list \<Rightarrow> pack_state \<Rightarrow> pack_state" where
  "walk cwd root_path pats dirpath es st =
     walk_dirs cwd root_path pats dirpath es (scan_files cwd root_path pats dirpath es st)"
| "walk_dirs cwd root_path pats dirpath [] st = st"
| "walk_dirs cwd root_path pats dirpath (File filename rd # es) st =
     walk_dirs cwd root_path pats dirpath es st"
| "walk_dirs cwd root_path pats dirpath (Dir d sub # es) st =
     (if is_ignored cwd True (join dirpath d) root_path pats
      then walk_dirs cwd root_path pats dirpath es st
      else walk_dirs cwd root_path pats dirpath es
             (walk cwd root_path pats (join dirpath d) sub st))"

text \<open>
  \<open>scan_and_pack(root_path, output_file)\<close> over the root directory with entries
  \<open>root\<close>. The final state holds the text written to the output file, the two numbers
  returned and the console.
\<close>

definition scan_and_pack :: "string \<Rightarrow> string \<Rightarrow> entry list \<Rightarrow> pack_state" where
  "scan_and_pack cwd root_path root =
     (let (gitignore_patterns, warnings) = load_gitignore root
      in walk cwd root_path gitignore_patterns root_path root
           \<lparr>outfile = META_PROMPT, file_count = 0, total_size = 0,
            console = Scanning root_path # warnings\<rparr>)"

section \<open>main\<close>

text \<open>
  What \<open>main\<close> reads from its surroundings: the two command line arguments, the
  environment variable, the working directory, the file system (\<open>dir_at p\<close> is the
  listing of the directory at the absolute path \<open>p\<close>, as the traversal finds it, and
  \<open>None\<close> when \<open>p\<close> is not a directory), the exception that opening the output file
  for writing raises, if any, and whether the clipboard takes the prompt.
\<close>

record run_env =
  arg_path :: "string option"
  flag_path :: "string option"
  context_root :: "string option"
  getcwd :: string
  dir_at :: "string \<Rightarrow> entry list option"
  open_output_error :: "string option"
  clipboard_works :: bool

text \<open>
  What a run leaves behind: the console, the output file (path and text), the file
  \<open>prompt.txt\<close>, the clipboard, the URL given to the browser and the directory given to the
  file explorer.
\<close>

record outcome =
  messages :: "message list"
  artifact :: "(string \<times> string) option"
  prompt_txt :: "string option"
  clipboard :: "string option"
  browser :: "string option"
  explorer :: "string option"

text \<open>Python's \<open>a or b\<close> on an optional string: \<open>None\<close> and the empty string are false.\<close>

fun py_or :: "string option \<Rightarrow> string \<Rightarrow> string" where
  "py_or None d = d"
| "py_or (Some s) d = (if s \<noteq> [] then s else d)"

definition dirname :: "string \<Rightarrow> string" where
  "dirname p =
     (let i = nat (rfind p os_sep + 1);
          head = take i p
      in if head \<noteq> [] \<and> head \<noteq> replicate (length head) os_sep
         then rev (dropWhile (\<lambda>c. c = os_sep) (rev head))
         else head)"

definition quiet :: outcome where
  "quiet = \<lparr>messages = [], artifact = None, prompt_txt = None, clipboard = None,
            browser = None, explorer = None\<rparr>"

text \<open>The root of the traversal: the first of the four sources that is not empty.\<close>

definition target_path :: "run_env \<Rightarrow> string" where
  "target_path e =
     abspath (getcwd e)
       (py_or (arg_path e) (py_or (flag_path e) (py_or (context_root e) (getcwd e))))"

definition main :: "run_env \<Rightarrow> outcome" where
  "main e =
     (case dir_at e (target_path e) of
        None \<Rightarrow> quiet\<lparr>messages := [NotADirectory (target_path e)]\<rparr>
      | Some root \<Rightarrow>
          let output_path = join (getcwd e) OUTPUT_FILENAME
          in (case open_output_error e of
                Some err \<Rightarrow>
                  quiet\<lparr>messages :=
                    Scanning (target_path e) # snd (load_gitignore root) @ [ErrorOccurred err]\<rparr>
              | None \<Rightarrow>
                  let st = scan_and_pack (getcwd e) (target_path e) root
                  in if file_count st = 0
                     then quiet\<lparr>messages := console st @ [NoMatchingFiles],
                                artifact := Some (output_path, outfile st)\<rparr>
                     else
                       let prompt_status =
                             (if clipboard_works e then ''Copied to clipboard!''
                              else ''Could not copy to clipboard (missing dependency?)'')
                       in \<lparr>messages =
                             console st @ [Success (file_count st) (total_size st) prompt_status],
                           artifact = Some (output_path, outfile st),
                           prompt_txt = Some USER_PROMPT,
                           clipboard = (if clipboard_works e then Some USER_PROMPT else None),
                           browser = Some GEMINI_URL,
                           explorer = Some (dirname output_path)\<rparr>))"

section \<open>The stages of is\_ignored, as the specification words them\<close>

definition exact_default :: "string \<Rightarrow> bool" where
  "exact_default name = (name \<in> set DEFAULT_IGNORE_DIRS)"

definition wildcard_default :: "string \<Rightarrow> bool" where
  "wildcard_default name =
     (\<exists>pattern \<in> set DEFAULT_IGNORE_DIRS. CHR ''*'' \<in> set pattern \<and> fnmatch name pattern)"

definition pattern_match :: "string \<Rightarrow> string \<Rightarrow> bool \<Rightarrow> string \<Rightarrow> bool" where
  "pattern_match rel_path name isdir pattern =
     ((endswith pattern ''/'' \<and> isdir \<and>
         (fnmatch (rel_path @ ''/'') pattern \<or> fnmatch (name @ ''/'') pattern)) \<or>
      fnmatch rel_path pattern \<or> fnmatch name pattern)"

definition gitignore_match :: "string list \<Rightarrow> string \<Rightarrow> string \<Rightarrow> bool \<Rightarrow> bool" where
  "gitignore_match patterns rel_path name isdir =
     (\<exists>pattern \<in> set patterns. pattern_match rel_path name isdir pattern)"

definition default_ignored :: "string \<Rightarrow> bool" where
  "default_ignored name = (exact_default name \<or> wildcard_default name)"

section \<open>Trees that differ where the traversal does not look\<close>

text \<open>
  \<open>remove_files Q es\<close> is the tree \<open>es\<close> without the files, at any depth, that
  satisfy \<open>Q\<close> (a predicate of the name and of what reading gives). A file is never
  packed when the traversal gives the same result on the tree without it.
\<close>

fun remove_files :: "(string \<Rightarrow> string + string \<Rightarrow> bool) \<Rightarrow> entry list \<Rightarrow> entry list" where
  "remove_files Q [] = []"
| "remove_files Q (File n rd # es) =
     (if Q n rd then remove_files Q es else File n rd # remove_files Q es)"
| "remove_files Q (Dir d sub # es) = Dir d (remove_files Q sub) # remove_files Q es"

text \<open>A name that begins with a dot and has no other dot, such as \<open>.env\<close>.\<close>

definition dotfile :: "string \<Rightarrow> bool" where
  "dotfile name = (take 1 name = ''.'' \<and> CHR ''.'' \<notin> set (drop 1 name))"

text \<open>The files named as the output file, and the files that cannot be read.\<close>

definition is_output :: "string \<Rightarrow> string + string \<Rightarrow> bool" where
  "is_output name rd = (name = OUTPUT_FILENAME)"

definition unreadable :: "string \<Rightarrow> string + string \<Rightarrow> bool" where
  "unreadable name rd = isl rd"

text \<open>
  \<open>empty_ignored dirpath es\<close> is the tree \<open>es\<close>, found at
  \<open>dirpath\<close>, in which every directory whose base name is ignored by default has lost its
  content, at any depth.
\<close>

fun empty_ignored :: "string \<Rightarrow> entry list \<Rightarrow> entry list" where
  "empty_ignored dirpath [] = []"
| "empty_ignored dirpath (File n rd # es) = File n rd # empty_ignored dirpath es"
| "empty_ignored dirpath (Dir d sub # es) =
     (if default_ignored (basename (join dirpath d)) then Dir d []
      else Dir d (empty_ignored (join dirpath d) sub)) # empty_ignored dirpath es"

text \<open>
  What a run packs: the text of the output file and the two numbers returned.
\<close>

definition packed :: "pack_state \<Rightarrow> string \<times> nat \<times> nat" where
  "packed st = (outfile st, file_count st, total_size st)"

text \<open>What the console says about the outcome of a run.\<close>

definition reports_success :: "message list \<Rightarrow> bool" where
  "reports_success ms = (\<exists>m \<in> set ms. case m of Success n s p \<Rightarrow> True | _ \<Rightarrow> False)"

definition reports_nothing_packed :: "message list \<Rightarrow> bool" where
  "reports_nothing_packed ms = (NoMatchingFiles \<in> set ms)"

text \<open>The messages that the traversal itself prints.\<close>

fun traversal_message :: "message \<Rightarrow> bool" where
  "traversal_message (Packed r) = True"
| "traversal_message (SkippedReadError r e) = True"
| "traversal_message _ = False"

section \<open>Properties\<close>

subsection \<open>Strings and paths\<close>

lemma rfind_ge: "- 1 \<le> rfind s c"
proof -
  have "length (takeWhile (\<lambda>x. x \<noteq> c) (rev s)) \<le> length (rev s)"
    by (rule length_takeWhile_le)
  then show ?thesis by (simp add: rfind_def)
qed

lemma rfind_last_occurrence:
  assumes "c \<notin> set t"
  shows "rfind (s @ c # t) c = int (length s)"
proof -
  have "takeWhile (\<lambda>x. x \<noteq> c) (rev t @ c # rev s) = rev t"
    using assms by (simp add: takeWhile_append)
  then show ?thesis by (simp add: rfind_def)
qed

lemma splitext_dotfile:
  assumes "CHR ''.'' \<notin> set rest"
  shows "splitext (CHR ''.'' # rest) = (CHR ''.'' # rest, [])"
proof -
  have d: "rfind (CHR ''.'' # rest) (CHR ''.'') = 0"
    using rfind_last_occurrence [OF assms, of "[]"] by simp
  have "- 1 \<le> rfind (CHR ''.'' # rest) os_sep" by (rule rfind_ge)
  then have "nat (0 - (rfind (CHR ''.'' # rest) os_sep + 1)) = 0" by simp
  then show ?thesis by (simp add: splitext_def d Let_def)
qed

lemma endswith_single: "endswith s [c] = (s \<noteq> [] \<and> last s = c)"
  by (cases s rule: rev_cases) (auto simp: endswith_def)

lemma startswith_single: "startswith s [c] = (s \<noteq> [] \<and> hd s = c)"
  by (cases s) (auto simp: startswith_def)

lemma basename_append:
  assumes "os_sep \<notin> set b" and "a = [] \<or> last a = os_sep"
  shows "basename (a @ b) = b"
proof (cases "a = []")
  case True
  then show ?thesis using assms by (simp add: basename_def rfind_def)
next
  case False
  then have "a = butlast a @ [os_sep]" using assms(2) by (metis append_butlast_last_id)
  then obtain a' where a: "a = a' @ [os_sep]" ..
  have "rfind (a' @ os_sep # b) os_sep = int (length a')"
    using assms(1) by (rule rfind_last_occurrence)
  moreover have "nat (int (length a') + 1) = Suc (length a')" by simp
  ultimately show ?thesis by (simp add: a basename_def)
qed

lemma basename_join:
  assumes "os_sep \<notin> set b"
  shows "basename (join a b) = b"
proof -
  have nb: "\<not> startswith b [os_sep]"
    using assms by (cases b) (auto simp: startswith_def)
  show ?thesis
  proof (cases "a = [] \<or> endswith a [os_sep]")
    case True
    then have "a = [] \<or> last a = os_sep" by (auto simp: endswith_single)
    with assms have "basename (a @ b) = b" by (rule basename_append)
    then show ?thesis using True nb by (simp add: join_def)
  next
    case False
    have "basename ((a @ [os_sep]) @ b) = b"
      using assms by (rule basename_append) simp
    then show ?thesis using False nb by (simp add: join_def)
  qed
qed

subsection \<open>is\_ignored\<close>

lemma default_wildcards_iff:
  "default_wildcards ps name = (\<exists>pattern \<in> set ps. CHR ''*'' \<in> set pattern \<and> fnmatch name pattern)"
  by (induction ps) auto

lemma gitignore_loop_iff:
  "gitignore_loop ps rel_path name isdir = gitignore_match ps rel_path name isdir"
  by (induction ps) (auto simp: gitignore_match_def pattern_match_def)

lemma is_ignored_iff:
  "is_ignored cwd isdir path root_path pats =
     (default_ignored (basename path) \<or>
      gitignore_match pats (replace_char (relpath cwd path root_path) os_sep (CHR ''/''))
        (basename path) isdir)"
  by (auto simp: is_ignored_def Let_def default_ignored_def exact_default_def
        wildcard_default_def default_wildcards_iff gitignore_loop_iff)

subsection \<open>The traversal\<close>

text \<open>
  A relation between states that every step of the loop over the files keeps, and that
  the files satisfying \<open>Q\<close> keep when only one side takes the step, holds between the
  result on the tree without those files and the result on the whole tree.
\<close>

lemma scan_files_remove_files:
  assumes keep: "\<And>n rd s s'. R s s' \<Longrightarrow>
      R (process_file cwd root pats dirpath n rd s) (process_file cwd root pats dirpath n rd s')"
    and skip: "\<And>n rd s s'. R s s' \<Longrightarrow> Q n rd \<Longrightarrow> R s (process_file cwd root pats dirpath n rd s')"
    and "R st st'"
  shows "R (scan_files cwd root pats dirpath (remove_files Q es) st)
           (scan_files cwd root pats dirpath es st')"
  using assms(3)
proof (induction es arbitrary: st st')
  case Nil
  then show ?case by simp
next
  case (Cons e es)
  show ?case
  proof (cases e)
    case (File n rd)
    show ?thesis
    proof (cases "Q n rd")
      case True
      have "R st (process_file cwd root pats dirpath n rd st')"
        using Cons.prems True by (rule skip)
      then show ?thesis using File True Cons.IH by simp
    next
      case False
      have "R (process_file cwd root pats dirpath n rd st) (process_file cwd root pats dirpath n rd st')"
        using Cons.prems by (rule keep)
      then show ?thesis using File False Cons.IH by simp
    qed
  next
    case (Dir d sub)
    then show ?thesis using Cons by simp
  qed
qed

lemma entry_list_induct [case_names Nil File Dir]:
  assumes "P []"
    and "\<And>n rd es. P es \<Longrightarrow> P (File n rd # es)"
    and "\<And>d sub es. P sub \<Longrightarrow> P es \<Longrightarrow> P (Dir d sub # es)"
  shows "P es"
proof (rule remove_files.induct [of "\<lambda>Q. P" "\<lambda>n rd. True" es])
  show "P []" by (rule assms(1))
next
  fix Q :: "string \<Rightarrow> string + string \<Rightarrow> bool" and n rd es
  assume "Q n rd \<Longrightarrow> P es" and "\<not> Q n rd \<Longrightarrow> P es"
  then have "P es" by blast
  then show "P (File n rd # es)" by (rule assms(2))
next
  fix d sub es
  assume "P sub" and "P es"
  then show "P (Dir d sub # es)" by (rule assms(3))
qed

declare walk.simps [simp del]

lemma walk_dirs_remove_files:
  assumes keep: "\<And>dirpath n rd s s'. R s s' \<Longrightarrow>
      R (process_file cwd root pats dirpath n rd s) (process_file cwd root pats dirpath n rd s')"
    and skip: "\<And>dirpath n rd s s'. R s s' \<Longrightarrow> Q n rd \<Longrightarrow>
      R s (process_file cwd root pats dirpath n rd s')"
    and "R st st'"
  shows "R (walk_dirs cwd root pats dirpath (remove_files Q es) st)
           (walk_dirs cwd root pats dirpath es st')"
  using assms(3)
proof (induction es arbitrary: dirpath st st' rule: entry_list_induct)
  case Nil
  then show ?case by simp
next
  case (File n rd es)
  then show ?case by simp
next
  case (Dir d sub es)
  have files: "R (scan_files cwd root pats (join dirpath d) (remove_files Q sub) st)
                 (scan_files cwd root pats (join dirpath d) sub st')"
    using keep skip Dir.prems by (rule scan_files_remove_files)
  have sub: "R (walk cwd root pats (join dirpath d) (remove_files Q sub) st)
               (walk cwd root pats (join dirpath d) sub st')"
    using Dir.IH(1) [OF files] by (simp add: walk.simps)
  show ?case
    using Dir.IH(2) [OF sub] Dir.IH(2) [OF Dir.prems] by simp
qed

lemma walk_remove_files:
  assumes keep: "\<And>dirpath n rd s s'. R s s' \<Longrightarrow>
      R (process_file cwd root pats dirpath n rd s) (process_file cwd root pats dirpath n rd s')"
    and skip: "\<And>dirpath n rd s s'. R s s' \<Longrightarrow> Q n rd \<Longrightarrow>
      R s (process_file cwd root pats dirpath n rd s')"
    and "R st st'"
  shows "R (walk cwd root pats dirpath (remove_files Q es) st) (walk cwd root pats dirpath es st')"
proof -
  have "R (scan_files cwd root pats dirpath (remove_files Q es) st)
          (scan_files cwd root pats dirpath es st')"
    using keep skip assms(3) by (rule scan_files_remove_files)
  then have "R (walk_dirs cwd root pats dirpath (remove_files Q es)
                 (scan_files cwd root pats dirpath (remove_files Q es) st))
               (walk_dirs cwd root pats dirpath es (scan_files cwd root pats dirpath es st'))"
    using keep skip by (rule walk_dirs_remove_files [rotated 2])
  then show ?thesis by (simp add: walk.simps)
qed

lemma walk_remove_files_eq:
  assumes "\<And>dirpath n rd s. Q n rd \<Longrightarrow> process_file cwd root pats dirpath n rd s = s"
  shows "walk cwd root pats dirpath (remove_files Q es) st = walk cwd root pats dirpath es st"
  by (rule walk_remove_files [where R = "(=)"]) (simp_all add: assms)

lemma process_file_no_extension:
  assumes "splitext filename = (filename, [])"
  shows "process_file cwd root_path pats dirpath filename rd st = st"
  using assms by (simp add: process_file_def Let_def lower_def INCLUDED_EXTENSIONS_def)

lemma dotfile_splitext: "dotfile name \<Longrightarrow> splitext name = (name, [])"
  by (cases name) (simp_all add: dotfile_def splitext_dotfile)

text \<open>
  C9. A file whose name begins with a dot and has no other dot has the empty extension,
  which is not in the allowlist: \<open>process_file\<close> leaves the state as it was, and the
  traversal of a tree gives the same result with and without such files. The extension
  \<open>.env\<close> itself is allowed, so \<open>x.env\<close> is packed where \<open>.env\<close> is not.
\<close>

theorem dotfile_never_packed:
  "(dotfile name \<longrightarrow>
      snd (splitext name) = [] \<and>
      process_file cwd root_path pats dirpath name rd st = st) \<and>
   walk cwd root_path pats dirpath (remove_files (\<lambda>n rd. dotfile n) es) st = walk cwd root_path pats dirpath es st \<and>
   [] \<notin> set INCLUDED_EXTENSIONS \<and> ''.env'' \<in> set INCLUDED_EXTENSIONS \<and>
   splitext ''x.env'' = (''x'', ''.env'') \<and>
   console (scan_and_pack ''/'' ''/proj'' [File ''.env'' (Inr ''A=1''), File ''x.env'' (Inr ''B=2'')])
     = [Scanning ''/proj'', Packed ''x.env'']"
proof -
  have a: "dotfile name \<longrightarrow> snd (splitext name) = [] \<and>
      process_file cwd root_path pats dirpath name rd st = st"
    by (simp add: dotfile_splitext process_file_no_extension)
  have b: "walk cwd root_path pats dirpath (remove_files (\<lambda>n rd. dotfile n) es) st = walk cwd root_path pats dirpath es st"
    by (rule walk_remove_files_eq) (simp add: dotfile_splitext process_file_no_extension)
  have c: "[] \<notin> set INCLUDED_EXTENSIONS \<and> ''.env'' \<in> set INCLUDED_EXTENSIONS"
    by (simp add: INCLUDED_EXTENSIONS_def)
  have d: "splitext ''x.env'' = (''x'', ''.env'')" by code_simp
  have e: "console (scan_and_pack ''/'' ''/proj'' [File ''.env'' (Inr ''A=1''), File ''x.env'' (Inr ''B=2'')])
     = [Scanning ''/proj'', Packed ''x.env'']" by code_simp
  from a b c d e show ?thesis by blast
qed

theorem dotfile_never_packed_witness:
  "dotfile ''.env'' \<and>
   process_file ''/'' ''/proj'' [] ''/proj'' ''.env'' (Inr ''A=1'')
     \<lparr>outfile = META_PROMPT, file_count = 0, total_size = 0, console = []\<rparr>
   = \<lparr>outfile = META_PROMPT, file_count = 0, total_size = 0, console = []\<rparr>"
  using dotfile_never_packed [of "''.env''" "''/''" "''/proj''" "[]" "''/proj''" "Inr ''A=1''"
      "\<lparr>outfile = META_PROMPT, file_count = 0, total_size = 0, console = []\<rparr>" "[]"]
  by (simp add: dotfile_def)

text \<open>
  A reflexive and transitive relation that each step of the loop over the files
  establishes between the state before and the state after holds between the state before
  and the state after a whole traversal.
\<close>

lemma scan_files_invariant:
  assumes refl: "\<And>s. R s s"
    and trans: "\<And>a b c. R a b \<Longrightarrow> R b c \<Longrightarrow> R a c"
    and step: "\<And>dirpath n rd s. R s (process_file cwd root pats dirpath n rd s)"
  shows "R st (scan_files cwd root pats dirpath es st)"
proof (induction es arbitrary: st)
  case Nil
  show ?case by (simp add: refl)
next
  case (Cons e es)
  show ?case
  proof (cases e)
    case (File n rd)
    have "R st (process_file cwd root pats dirpath n rd st)" by (rule step)
    moreover have "R (process_file cwd root pats dirpath n rd st)
        (scan_files cwd root pats dirpath es (process_file cwd root pats dirpath n rd st))"
      by (rule Cons.IH)
    ultimately show ?thesis using File by (simp add: trans [of st])
  next
    case (Dir d sub)
    then show ?thesis using Cons.IH by simp
  qed
qed

lemma walk_dirs_invariant:
  assumes refl: "\<And>s. R s s"
    and trans: "\<And>a b c. R a b \<Longrightarrow> R b c \<Longrightarrow> R a c"
    and step: "\<And>dirpath n rd s. R s (process_file cwd root pats dirpath n rd s)"
  shows "R st (walk_dirs cwd root pats dirpath es st)"
proof (induction es arbitrary: dirpath st rule: entry_list_induct)
  case Nil
  show ?case by (simp add: refl)
next
  case (File n rd es)
  then show ?case by simp
next
  case (Dir d sub es)
  let ?dp = "join dirpath d"
  let ?s1 = "scan_files cwd root pats ?dp sub st"
  let ?s2 = "walk_dirs cwd root pats ?dp sub ?s1"
  have "R st ?s1" using refl trans step by (rule scan_files_invariant)
  moreover have "R ?s1 ?s2" by (rule Dir.IH(1))
  ultimately have "R st ?s2" by (rule trans)
  moreover have "R ?s2 (walk_dirs cwd root pats dirpath es ?s2)" by (rule Dir.IH(2))
  ultimately have "R st (walk_dirs cwd root pats dirpath es ?s2)" by (rule trans)
  then show ?case using Dir.IH(2) [where st = st and dirpath = dirpath] by (simp add: walk.simps)
qed

lemma walk_invariant:
  assumes refl: "\<And>s. R s s"
    and trans: "\<And>a b c. R a b \<Longrightarrow> R b c \<Longrightarrow> R a c"
    and step: "\<And>dirpath n rd s. R s (process_file cwd root pats dirpath n rd s)"
  shows "R st (walk cwd root pats dirpath es st)"
proof -
  let ?s1 = "scan_files cwd root pats dirpath es st"
  have "R st ?s1" using refl trans step by (rule scan_files_invariant)
  moreover have "R ?s1 (walk_dirs cwd root pats dirpath es ?s1)"
    using refl trans step by (rule walk_dirs_invariant)
  ultimately show ?thesis by (simp add: walk.simps trans [of st ?s1])
qed

lemma load_gitignore_remove_files:
  assumes "\<And>rd. \<not> Q ''.gitignore'' rd"
  shows "load_gitignore (remove_files Q es) = load_gitignore es"
  using assms by (induction es rule: entry_list_induct) (auto simp: load_gitignore_def)

lemma packed_process_file:
  assumes "packed s = packed s'"
  shows "packed (process_file cwd root pats dirpath n rd s) =
         packed (process_file cwd root pats dirpath n rd s')"
  using assms by (auto simp: packed_def process_file_def Let_def split: sum.splits)

lemma packed_process_file_unreadable:
  "packed (process_file cwd root pats dirpath n (Inl e) s) = packed s"
  by (simp add: packed_def process_file_def Let_def)

lemma packed_walk:
  assumes "packed s = packed s'"
  shows "packed (walk cwd root pats dirpath es s) = packed (walk cwd root pats dirpath es s')"
proof -
  have "packed (walk cwd root pats dirpath (remove_files (\<lambda>n rd. False) es) s) =
        packed (walk cwd root pats dirpath es s')"
  proof (rule walk_remove_files [where R = "\<lambda>a b. packed a = packed b"])
    fix dirpath n rd a b
    assume "packed a = packed b"
    then show "packed (process_file cwd root pats dirpath n rd a) =
               packed (process_file cwd root pats dirpath n rd b)"
      by (rule packed_process_file)
  next
    fix dirpath n rd and a b :: pack_state
    assume "False"
    then show "packed a = packed (process_file cwd root pats dirpath n rd b)" by simp
  next
    show "packed s = packed s'" by (rule assms)
  qed
  moreover have "walk cwd root pats dirpath (remove_files (\<lambda>n rd. False) es) s =
        walk cwd root pats dirpath es s"
    by (rule walk_remove_files_eq) simp
  ultimately show ?thesis by simp
qed

lemma packed_walk_remove_unreadable:
  "packed (walk cwd root pats dirpath (remove_files unreadable es) st) =
   packed (walk cwd root pats dirpath es st)"
proof (rule walk_remove_files [where R = "\<lambda>a b. packed a = packed b"])
  fix dirpath n rd s s'
  assume "packed s = packed s'"
  then show "packed (process_file cwd root pats dirpath n rd s) =
             packed (process_file cwd root pats dirpath n rd s')"
    by (rule packed_process_file)
next
  fix dirpath n rd s s'
  assume "packed s = packed s'" and "unreadable n rd"
  then show "packed s = packed (process_file cwd root pats dirpath n rd s')"
    by (cases rd) (simp_all add: unreadable_def packed_process_file_unreadable)
next
  show "packed st = packed st" by simp
qed

lemma outfile_grows_process_file:
  "prefix (outfile s) (outfile (process_file cwd root pats dirpath n rd s)) \<and>
   file_count s \<le> file_count (process_file cwd root pats dirpath n rd s) \<and>
   total_size s \<le> total_size (process_file cwd root pats dirpath n rd s)"
  by (simp add: process_file_def Let_def split: sum.splits)

lemma outfile_grows_walk:
  "prefix (outfile st) (outfile (walk cwd root pats dirpath es st)) \<and>
   file_count st \<le> file_count (walk cwd root pats dirpath es st) \<and>
   total_size st \<le> total_size (walk cwd root pats dirpath es st)"
proof (rule walk_invariant [where R = "\<lambda>a b. prefix (outfile a) (outfile b) \<and>
          file_count a \<le> file_count b \<and> total_size a \<le> total_size b"])
  fix a b c :: pack_state
  assume "prefix (outfile a) (outfile b) \<and> file_count a \<le> file_count b \<and> total_size a \<le> total_size b"
    and "prefix (outfile b) (outfile c) \<and> file_count b \<le> file_count c \<and> total_size b \<le> total_size c"
  then show "prefix (outfile a) (outfile c) \<and> file_count a \<le> file_count c \<and> total_size a \<le> total_size c"
    by (auto intro: prefix_order.order_trans)
qed (simp_all add: outfile_grows_process_file)

subsection \<open>The claims\<close>

text \<open>
  C4. A file named \<open>codebase_context.md\<close> is never packed: the loop leaves the state as
  it was at such a file, whatever the ignore rules and its content are, and a run gives the
  same result on the tree with and without the files of that name, at any depth. The name
  would pass the two other tests: its extension is in the allowlist and no default rule
  ignores it. So the output file of an earlier run is not packed by a later one.
\<close>

theorem output_file_never_packed:
  "process_file cwd root_path pats dirpath OUTPUT_FILENAME rd st = st \<and>
   walk cwd root_path pats dirpath (remove_files is_output es) st =
     walk cwd root_path pats dirpath es st \<and>
   scan_and_pack cwd root_path (remove_files is_output es) = scan_and_pack cwd root_path es \<and>
   lower (snd (splitext OUTPUT_FILENAME)) \<in> set INCLUDED_EXTENSIONS \<and>
   \<not> default_ignored OUTPUT_FILENAME"
proof -
  have a: "process_file cwd root_path pats dirpath OUTPUT_FILENAME rd st = st"
    by (simp add: process_file_def)
  have w: "\<And>pats st. walk cwd root_path pats dirpath (remove_files is_output es) st =
     walk cwd root_path pats dirpath es st"
    by (rule walk_remove_files_eq) (simp add: is_output_def process_file_def)
  have w': "\<And>pats st. walk cwd root_path pats root_path (remove_files is_output es) st =
     walk cwd root_path pats root_path es st"
    by (rule walk_remove_files_eq) (simp add: is_output_def process_file_def)
  have g: "load_gitignore (remove_files is_output es) = load_gitignore es"
    by (rule load_gitignore_remove_files) (simp add: is_output_def OUTPUT_FILENAME_def)
  have c: "scan_and_pack cwd root_path (remove_files is_output es) = scan_and_pack cwd root_path es"
    by (simp add: scan_and_pack_def g w')
  have d: "lower (snd (splitext OUTPUT_FILENAME)) \<in> set INCLUDED_EXTENSIONS"
    by code_simp
  have e: "\<not> default_ignored OUTPUT_FILENAME"
    by code_simp
  from a w c d e show ?thesis by blast
qed

theorem output_file_never_packed_witness:
  "scan_and_pack ''/'' ''/proj''
     [File ''a.py'' (Inr ''x''), Dir ''src'' [File ''codebase_context.md'' (Inr ''old'')],
      File ''codebase_context.md'' (Inr ''older'')] =
   scan_and_pack ''/'' ''/proj'' [File ''a.py'' (Inr ''x''), Dir ''src'' []]"
  using output_file_never_packed [of "''/''" "''/proj''" "[]" "''/proj''" "Inr ''x''"
      "\<lparr>outfile = [], file_count = 0, total_size = 0, console = []\<rparr>"
      "[File ''a.py'' (Inr ''x''), Dir ''src'' [File ''codebase_context.md'' (Inr ''old'')],
        File ''codebase_context.md'' (Inr ''older'')]"]
  by (simp add: is_output_def OUTPUT_FILENAME_def)

text \<open>
  C2. \<open>is_ignored\<close> is the disjunction of three stages, tried in this order: the base
  name is a member of the default set; the base name matches a default entry that contains
  \<open>*\<close>; some loaded pattern matches the root-relative path or the base name. A stage
  that matches decides the result whatever the later stages are, and the result is false
  when no stage matches.
\<close>

theorem is_ignored_stages:
  "is_ignored cwd isdir path root_path pats =
     (exact_default (basename path) \<or> wildcard_default (basename path) \<or>
      gitignore_match pats (replace_char (relpath cwd path root_path) os_sep (CHR ''/''))
        (basename path) isdir) \<and>
   (exact_default (basename path) \<longrightarrow> is_ignored cwd isdir path root_path pats) \<and>
   (wildcard_default (basename path) \<longrightarrow> is_ignored cwd isdir path root_path pats) \<and>
   (\<not> exact_default (basename path) \<and> \<not> wildcard_default (basename path) \<longrightarrow>
      is_ignored cwd isdir path root_path pats =
        gitignore_loop pats (replace_char (relpath cwd path root_path) os_sep (CHR ''/''))
          (basename path) isdir) \<and>
   (gitignore_loop (p # ps) rel_path name isdir =
      (pattern_match rel_path name isdir p \<or> gitignore_loop ps rel_path name isdir))"
  by (auto simp: is_ignored_iff default_ignored_def gitignore_loop_iff gitignore_match_def)

theorem is_ignored_stages_witness:
  "is_ignored ''/'' True ''/proj/node_modules'' ''/proj'' [] \<and>
   exact_default ''node_modules'' \<and>
   is_ignored ''/'' False ''/proj/a.log'' ''/proj'' [] \<and>
   \<not> exact_default ''a.log'' \<and> wildcard_default ''a.log'' \<and>
   is_ignored ''/'' False ''/proj/src/gen.py'' ''/proj'' [''*.tmp'', ''src/gen.*''] \<and>
   \<not> exact_default ''gen.py'' \<and> \<not> wildcard_default ''gen.py'' \<and>
   \<not> is_ignored ''/'' False ''/proj/src/a.py'' ''/proj'' [''src/gen.*'']"
proof -
  have e1: "exact_default ''node_modules''" by code_simp
  have e2: "\<not> exact_default ''a.log'' \<and> wildcard_default ''a.log''" by code_simp
  have e3: "\<not> exact_default ''gen.py'' \<and> \<not> wildcard_default ''gen.py''" by code_simp
  have e4: "\<not> exact_default ''a.py'' \<and> \<not> wildcard_default ''a.py''" by code_simp
  have b1: "basename ''/proj/node_modules'' = ''node_modules''" by code_simp
  have b2: "basename ''/proj/a.log'' = ''a.log''" by code_simp
  have b3: "basename ''/proj/src/gen.py'' = ''gen.py''" by code_simp
  have b4: "basename ''/proj/src/a.py'' = ''a.py''" by code_simp
  have g3: "gitignore_loop [''*.tmp'', ''src/gen.*'']
      (replace_char (relpath ''/'' ''/proj/src/gen.py'' ''/proj'') os_sep (CHR ''/'')) ''gen.py'' False"
    by code_simp
  have g4: "\<not> gitignore_loop [''src/gen.*'']
      (replace_char (relpath ''/'' ''/proj/src/a.py'' ''/proj'') os_sep (CHR ''/'')) ''a.py'' False"
    by code_simp
  show ?thesis
    using is_ignored_stages [of "''/''" True "''/proj/node_modules''" "''/proj''" "[]"]
      is_ignored_stages [of "''/''" False "''/proj/a.log''" "''/proj''" "[]"]
      is_ignored_stages [of "''/''" False "''/proj/src/gen.py''" "''/proj''" "[''*.tmp'', ''src/gen.*'']"]
      is_ignored_stages [of "''/''" False "''/proj/src/a.py''" "''/proj''" "[''src/gen.*'']"]
      e1 e2 e3 e4 g3 g4
    unfolding b1 b2 b3 b4 by blast
qed

text \<open>
  C7, as amended. The extension test is made on the lower-cased extension. A file that is
  not named as the output file and that no ignore rule excludes passes to the read step
  exactly when its lower-cased extension is in the allowlist; when it can be read it is
  then packed, so for a readable file "packed" and "allowed extension" are equivalent. A
  file whose lower-cased extension is outside the allowlist leaves the state as it was,
  whatever the ignore rules say. \<open>notes.TXT\<close> is packed.
\<close>

theorem extension_allowlist_case_insensitive:
  "(filename \<noteq> OUTPUT_FILENAME \<and>
    \<not> is_ignored cwd False (join dirpath filename) root_path pats \<longrightarrow>
      (file_count (process_file cwd root_path pats dirpath filename (Inr content) st)
         = file_count st + 1)
      = (lower (snd (splitext filename)) \<in> set INCLUDED_EXTENSIONS) \<and>
      (lower (snd (splitext filename)) \<in> set INCLUDED_EXTENSIONS \<longrightarrow>
         process_file cwd root_path pats dirpath filename (Inr content) st =
           st\<lparr>outfile := outfile st @
                  section_text (relpath cwd (join dirpath filename) root_path) content,
              file_count := file_count st + 1,
              total_size := total_size st + length content,
              console := console st @ [Packed (relpath cwd (join dirpath filename) root_path)]\<rparr>)) \<and>
   (lower (snd (splitext filename)) \<notin> set INCLUDED_EXTENSIONS \<longrightarrow>
      process_file cwd root_path pats dirpath filename rd st = st) \<and>
   console (scan_and_pack ''/'' ''/proj'' [File ''notes.TXT'' (Inr ''hi'')]) =
     [Scanning ''/proj'', Packed ''notes.TXT'']"
proof -
  have ex: "console (scan_and_pack ''/'' ''/proj'' [File ''notes.TXT'' (Inr ''hi'')]) =
     [Scanning ''/proj'', Packed ''notes.TXT'']" by code_simp
  show ?thesis
    unfolding ex by (simp add: process_file_def Let_def)
qed

theorem extension_allowlist_case_insensitive_witness:
  "''notes.TXT'' \<noteq> OUTPUT_FILENAME \<and>
   \<not> is_ignored ''/'' False (join ''/proj'' ''notes.TXT'') ''/proj'' [] \<and>
   lower (snd (splitext ''notes.TXT'')) \<in> set INCLUDED_EXTENSIONS \<and>
   file_count (process_file ''/'' ''/proj'' [] ''/proj'' ''notes.TXT'' (Inr ''hi'')
     \<lparr>outfile = META_PROMPT, file_count = 0, total_size = 0, console = []\<rparr>) = 1 \<and>
   lower (snd (splitext ''photo.PNG'')) \<notin> set INCLUDED_EXTENSIONS \<and>
   process_file ''/'' ''/proj'' [] ''/proj'' ''photo.PNG'' (Inr ''hi'')
     \<lparr>outfile = META_PROMPT, file_count = 0, total_size = 0, console = []\<rparr> =
     \<lparr>outfile = META_PROMPT, file_count = 0, total_size = 0, console = []\<rparr>"
proof -
  have a: "''notes.TXT'' \<noteq> OUTPUT_FILENAME" by (simp add: OUTPUT_FILENAME_def)
  have b: "\<not> is_ignored ''/'' False (join ''/proj'' ''notes.TXT'') ''/proj'' []" by code_simp
  have c: "lower (snd (splitext ''notes.TXT'')) \<in> set INCLUDED_EXTENSIONS" by code_simp
  have d: "lower (snd (splitext ''photo.PNG'')) \<notin> set INCLUDED_EXTENSIONS" by code_simp
  show ?thesis
    using extension_allowlist_case_insensitive [of "''notes.TXT''" "''/''" "''/proj''" "''/proj''" "[]"
        "''hi''" "\<lparr>outfile = META_PROMPT, file_count = 0, total_size = 0, console = []\<rparr>" "Inr ''hi''"]
      extension_allowlist_case_insensitive [of "''photo.PNG''" "''/''" "''/proj''" "''/proj''" "[]"
        "''hi''" "\<lparr>outfile = META_PROMPT, file_count = 0, total_size = 0, console = []\<rparr>" "Inr ''hi''"]
      a b c d
    by simp
qed

text \<open>
  The claim C7 as it is worded fails at the output file itself: no ignore rule excludes
  \<open>codebase_context.md\<close> and its extension is in the allowlist, yet it is not packed.
\<close>

theorem extension_iff_packed_counterexample:
  "\<not> is_ignored ''/'' False (join ''/proj'' ''codebase_context.md'') ''/proj'' [] \<and>
   lower (snd (splitext ''codebase_context.md'')) \<in> set INCLUDED_EXTENSIONS \<and>
   scan_and_pack ''/'' ''/proj'' [File ''codebase_context.md'' (Inr ''old'')] =
     \<lparr>outfile = META_PROMPT, file_count = 0, total_size = 0, console = [Scanning ''/proj'']\<rparr>"
  by code_simp

text \<open>
  C6. A file that reaches the read step and fails to read adds one message to the console
  and changes nothing else: the text of the output file, the count and the size stay as
  they were. The loop goes on with the next file, and what a whole traversal packs is what
  it packs on the tree without the unreadable files. A traversal only ever appends to the
  output file, so what was packed before stays in it.
\<close>

theorem read_failure_skips_one_file:
  "(filename \<noteq> OUTPUT_FILENAME \<and>
    \<not> is_ignored cwd False (join dirpath filename) root_path pats \<and>
    lower (snd (splitext filename)) \<in> set INCLUDED_EXTENSIONS \<longrightarrow>
      process_file cwd root_path pats dirpath filename (Inl e) st =
        st\<lparr>console := console st @
             [SkippedReadError (relpath cwd (join dirpath filename) root_path) e]\<rparr>) \<and>
   packed (process_file cwd root_path pats dirpath filename (Inl e) st) = packed st \<and>
   scan_files cwd root_path pats dirpath (File filename (Inl e) # es) st =
     scan_files cwd root_path pats dirpath es
       (process_file cwd root_path pats dirpath filename (Inl e) st) \<and>
   packed (walk cwd root_path pats dirpath (remove_files unreadable es) st) =
     packed (walk cwd root_path pats dirpath es st) \<and>
   prefix (outfile st) (outfile (walk cwd root_path pats dirpath es st)) \<and>
   file_count st \<le> file_count (walk cwd root_path pats dirpath es st) \<and>
   total_size st \<le> total_size (walk cwd root_path pats dirpath es st)"
proof -
  have a: "filename \<noteq> OUTPUT_FILENAME \<and>
    \<not> is_ignored cwd False (join dirpath filename) root_path pats \<and>
    lower (snd (splitext filename)) \<in> set INCLUDED_EXTENSIONS \<longrightarrow>
      process_file cwd root_path pats dirpath filename (Inl e) st =
        st\<lparr>console := console st @
             [SkippedReadError (relpath cwd (join dirpath filename) root_path) e]\<rparr>"
    by (simp add: process_file_def Let_def)
  have b: "packed (process_file cwd root_path pats dirpath filename (Inl e) st) = packed st"
    by (rule packed_process_file_unreadable)
  have c: "scan_files cwd root_path pats dirpath (File filename (Inl e) # es) st =
     scan_files cwd root_path pats dirpath es
       (process_file cwd root_path pats dirpath filename (Inl e) st)"
    by simp
  have d: "packed (walk cwd root_path pats dirpath (remove_files unreadable es) st) =
     packed (walk cwd root_path pats dirpath es st)"
    by (rule packed_walk_remove_unreadable)
  from a b c d outfile_grows_walk [of st cwd root_path pats dirpath es]
  show ?thesis by blast
qed

theorem read_failure_skips_one_file_witness:
  "packed (scan_and_pack ''/'' ''/proj''
     [File ''a.py'' (Inr ''x''), File ''b.py'' (Inl ''Permission denied''), File ''c.py'' (Inr ''yz'')])
   = (META_PROMPT @ section_text ''a.py'' ''x'' @ section_text ''c.py'' ''yz'', 2, 3) \<and>
   console (scan_and_pack ''/'' ''/proj''
     [File ''a.py'' (Inr ''x''), File ''b.py'' (Inl ''Permission denied''), File ''c.py'' (Inr ''yz'')])
   = [Scanning ''/proj'', Packed ''a.py'', SkippedReadError ''b.py'' ''Permission denied'',
      Packed ''c.py''] \<and>
   ''b.py'' \<noteq> OUTPUT_FILENAME \<and>
   \<not> is_ignored ''/'' False (join ''/proj'' ''b.py'') ''/proj'' [] \<and>
   lower (snd (splitext ''b.py'')) \<in> set INCLUDED_EXTENSIONS \<and>
   process_file ''/'' ''/proj'' [] ''/proj'' ''b.py'' (Inl ''Permission denied'')
     \<lparr>outfile = ''A'', file_count = 1, total_size = 1, console = []\<rparr> =
     \<lparr>outfile = ''A'', file_count = 1, total_size = 1,
      console = [SkippedReadError (relpath ''/'' (join ''/proj'' ''b.py'') ''/proj'') ''Permission denied'']\<rparr>"
proof -
  have a: "packed (scan_and_pack ''/'' ''/proj''
     [File ''a.py'' (Inr ''x''), File ''b.py'' (Inl ''Permission denied''), File ''c.py'' (Inr ''yz'')])
   = (META_PROMPT @ section_text ''a.py'' ''x'' @ section_text ''c.py'' ''yz'', 2, 3)"
    by code_simp
  have b: "console (scan_and_pack ''/'' ''/proj''
     [File ''a.py'' (Inr ''x''), File ''b.py'' (Inl ''Permission denied''), File ''c.py'' (Inr ''yz'')])
   = [Scanning ''/proj'', Packed ''a.py'', SkippedReadError ''b.py'' ''Permission denied'',
      Packed ''c.py'']"
    by code_simp
  have c: "''b.py'' \<noteq> OUTPUT_FILENAME" by (simp add: OUTPUT_FILENAME_def)
  have d: "\<not> is_ignored ''/'' False (join ''/proj'' ''b.py'') ''/proj'' []" by code_simp
  have e: "lower (snd (splitext ''b.py'')) \<in> set INCLUDED_EXTENSIONS" by code_simp
  show ?thesis
    using read_failure_skips_one_file [of "''b.py''" "''/''" "''/proj''" "''/proj''" "[]"
        "''Permission denied''" "\<lparr>outfile = ''A'', file_count = 1, total_size = 1, console = []\<rparr>" "[]"]
      a b c d e
    by simp
qed

text \<open>
  C8. Two runs over trees that are the same but for the files named as the output file
  (present or not, with any content) give the same result: the same text in the output
  file, the same count and size, the same console. The second run of two in a row finds
  the tree of the first with the output file written again, so it packs the same sections
  in the same order.
\<close>

theorem repeated_run_same_sections:
  assumes "remove_files is_output es' = remove_files is_output es"
  shows "scan_and_pack cwd root_path es' = scan_and_pack cwd root_path es"
proof -
  have w: "\<And>es pats st. walk cwd root_path pats root_path (remove_files is_output es) st =
     walk cwd root_path pats root_path es st"
    by (rule walk_remove_files_eq) (simp add: is_output_def process_file_def)
  have g: "\<And>es. load_gitignore (remove_files is_output es) = load_gitignore es"
    by (rule load_gitignore_remove_files) (simp add: is_output_def OUTPUT_FILENAME_def)
  have s: "\<And>es. scan_and_pack cwd root_path (remove_files is_output es) =
      scan_and_pack cwd root_path es"
    by (simp add: scan_and_pack_def g w)
  have "scan_and_pack cwd root_path es' = scan_and_pack cwd root_path (remove_files is_output es')"
    by (simp add: s)
  also have "\<dots> = scan_and_pack cwd root_path (remove_files is_output es)"
    by (simp add: assms)
  also have "\<dots> = scan_and_pack cwd root_path es" by (rule s)
  finally show ?thesis .
qed

theorem repeated_run_same_sections_witness:
  "remove_files is_output
     [File ''a.py'' (Inr ''x''), Dir ''src'' [File ''b.py'' (Inr ''y'')],
      File ''codebase_context.md''
        (Inr (outfile (scan_and_pack ''/proj'' ''/proj''
           [File ''a.py'' (Inr ''x''), Dir ''src'' [File ''b.py'' (Inr ''y'')]])))] =
   remove_files is_output [File ''a.py'' (Inr ''x''), Dir ''src'' [File ''b.py'' (Inr ''y'')]] \<and>
   scan_and_pack ''/proj'' ''/proj''
     [File ''a.py'' (Inr ''x''), Dir ''src'' [File ''b.py'' (Inr ''y'')],
      File ''codebase_context.md''
        (Inr (outfile (scan_and_pack ''/proj'' ''/proj''
           [File ''a.py'' (Inr ''x''), Dir ''src'' [File ''b.py'' (Inr ''y'')]])))] =
   scan_and_pack ''/proj'' ''/proj''
     [File ''a.py'' (Inr ''x''), Dir ''src'' [File ''b.py'' (Inr ''y'')]]"
proof -
  have h: "remove_files is_output
     [File ''a.py'' (Inr ''x''), Dir ''src'' [File ''b.py'' (Inr ''y'')],
      File ''codebase_context.md''
        (Inr (outfile (scan_and_pack ''/proj'' ''/proj''
           [File ''a.py'' (Inr ''x''), Dir ''src'' [File ''b.py'' (Inr ''y'')]])))] =
   remove_files is_output [File ''a.py'' (Inr ''x''), Dir ''src'' [File ''b.py'' (Inr ''y'')]]"
    by (simp add: is_output_def OUTPUT_FILENAME_def)
  show ?thesis by (rule conjI [OF h repeated_run_same_sections [OF h]])
qed

lemma nothing_counted_nothing_written:
  "file_count st \<le> file_count (walk cwd root pats dirpath es st) \<and>
   (file_count (walk cwd root pats dirpath es st) = file_count st \<longrightarrow>
      outfile (walk cwd root pats dirpath es st) = outfile st \<and>
      total_size (walk cwd root pats dirpath es st) = total_size st)"
proof (rule walk_invariant [where R = "\<lambda>a b. file_count a \<le> file_count b \<and>
          (file_count b = file_count a \<longrightarrow> outfile b = outfile a \<and> total_size b = total_size a)"])
  fix dirpath n rd s
  show "file_count s \<le> file_count (process_file cwd root pats dirpath n rd s) \<and>
       (file_count (process_file cwd root pats dirpath n rd s) = file_count s \<longrightarrow>
        outfile (process_file cwd root pats dirpath n rd s) = outfile s \<and>
        total_size (process_file cwd root pats dirpath n rd s) = total_size s)"
    by (simp add: process_file_def Let_def split: sum.splits)
qed auto

lemma console_walk:
  "\<forall>m \<in> set (console (walk cwd root pats dirpath es st)).
     m \<in> set (console st) \<or> traversal_message m"
proof (rule walk_invariant [where R = "\<lambda>a b. \<forall>m \<in> set (console b).
          m \<in> set (console a) \<or> traversal_message m"])
  fix dirpath n rd s
  show "\<forall>m \<in> set (console (process_file cwd root pats dirpath n rd s)).
     m \<in> set (console s) \<or> traversal_message m"
    by (simp add: process_file_def Let_def split: sum.splits)
qed auto

lemma load_gitignore_warnings:
  "m \<in> set (snd (load_gitignore root)) \<Longrightarrow> \<exists>w. m = GitignoreWarning w"
  by (auto simp: load_gitignore_def split: option.splits entry.splits sum.splits)

lemma console_scan_and_pack:
  assumes "m \<in> set (console (scan_and_pack cwd root_path root))"
  shows "m = Scanning root_path \<or> (\<exists>w. m = GitignoreWarning w) \<or> traversal_message m"
proof -
  obtain ps ws where lg: "load_gitignore root = (ps, ws)" by (cases "load_gitignore root")
  let ?st0 = "\<lparr>outfile = META_PROMPT, file_count = 0, total_size = 0,
               console = Scanning root_path # ws\<rparr>"
  have "m \<in> set (console (walk cwd root_path ps root_path root ?st0))"
    using assms by (simp add: scan_and_pack_def lg)
  then have "m \<in> set (console ?st0) \<or> traversal_message m"
    using console_walk [of cwd root_path ps root_path root ?st0] by blast
  moreover have "\<And>x. x \<in> set ws \<Longrightarrow> \<exists>w. x = GitignoreWarning w"
    using load_gitignore_warnings [of _ root] by (simp add: lg)
  ultimately show ?thesis by auto
qed

lemma scan_and_pack_nothing:
  assumes "file_count (scan_and_pack cwd root_path root) = 0"
  shows "outfile (scan_and_pack cwd root_path root) = META_PROMPT"
proof -
  obtain ps ws where lg: "load_gitignore root = (ps, ws)" by (cases "load_gitignore root")
  let ?st0 = "\<lparr>outfile = META_PROMPT, file_count = 0, total_size = 0,
               console = Scanning root_path # ws\<rparr>"
  have "file_count (walk cwd root_path ps root_path root ?st0) = file_count ?st0"
    using assms by (simp add: scan_and_pack_def lg)
  then have "outfile (walk cwd root_path ps root_path root ?st0) = outfile ?st0"
    using nothing_counted_nothing_written [of ?st0 cwd root_path ps root_path root] by blast
  then show ?thesis by (simp add: scan_and_pack_def lg)
qed

lemma reports_success_iff: "reports_success ms = (\<exists>n s p. Success n s p \<in> set ms)"
proof
  assume "reports_success ms"
  then obtain m where m: "m \<in> set ms" and c: "case m of Success n s p \<Rightarrow> True | _ \<Rightarrow> False"
    unfolding reports_success_def by blast
  from c obtain n s p where "m = Success n s p" by (cases m) simp_all
  with m show "\<exists>n s p. Success n s p \<in> set ms" by blast
next
  assume "\<exists>n s p. Success n s p \<in> set ms"
  then obtain n s p where "Success n s p \<in> set ms" by blast
  then show "reports_success ms"
    unfolding reports_success_def by (rule bexI [rotated]) simp
qed

lemma scan_console_no_verdict:
  "\<not> reports_success (console (scan_and_pack cwd root_path root)) \<and>
   \<not> reports_nothing_packed (console (scan_and_pack cwd root_path root))"
proof -
  have k: "m \<noteq> NoMatchingFiles \<and> (\<forall>n s p. m \<noteq> Success n s p)"
    if "m \<in> set (console (scan_and_pack cwd root_path root))" for m
  proof -
    from that have "m = Scanning root_path \<or> (\<exists>w. m = GitignoreWarning w) \<or> traversal_message m"
      by (rule console_scan_and_pack)
    then show ?thesis by (cases m) simp_all
  qed
  have "\<not> reports_success (console (scan_and_pack cwd root_path root))"
    unfolding reports_success_iff using k by blast
  moreover have "\<not> reports_nothing_packed (console (scan_and_pack cwd root_path root))"
    unfolding reports_nothing_packed_def using k by blast
  ultimately show ?thesis by simp
qed

text \<open>
  C5. When the root is a directory, the output file opens and the traversal packs no
  file, \<open>main\<close> prints the message "No matching files found to pack." after the console
  of the traversal and stops: it prints no success message, writes no \<open>prompt.txt\<close>,
  fills no clipboard and opens neither browser nor file explorer. The output file then
  holds the preamble and nothing else; it is not of zero size. When at least one file is
  packed the success message is printed and the other message is not.
\<close>

theorem nothing_packed_is_reported:
  assumes "dir_at e (target_path e) = Some root" and "open_output_error e = None"
  shows
    "(file_count (scan_and_pack (getcwd e) (target_path e) root) = 0 \<longrightarrow>
        messages (main e) =
          console (scan_and_pack (getcwd e) (target_path e) root) @ [NoMatchingFiles] \<and>
        reports_nothing_packed (messages (main e)) \<and>
        \<not> reports_success (messages (main e)) \<and>
        artifact (main e) = Some (join (getcwd e) OUTPUT_FILENAME, META_PROMPT) \<and>
        META_PROMPT \<noteq> [] \<and>
        prompt_txt (main e) = None \<and> clipboard (main e) = None \<and>
        browser (main e) = None \<and> explorer (main e) = None) \<and>
     (file_count (scan_and_pack (getcwd e) (target_path e) root) \<noteq> 0 \<longrightarrow>
        reports_success (messages (main e)) \<and>
        \<not> reports_nothing_packed (messages (main e)) \<and>
        prompt_txt (main e) = Some USER_PROMPT \<and>
        browser (main e) = Some GEMINI_URL)"
proof -
  let ?st = "scan_and_pack (getcwd e) (target_path e) root"
  note nv = scan_console_no_verdict [of "getcwd e" "target_path e" root]
  have zero: "main e = quiet\<lparr>messages := console ?st @ [NoMatchingFiles],
        artifact := Some (join (getcwd e) OUTPUT_FILENAME, META_PROMPT)\<rparr>"
    if z: "file_count ?st = 0"
  proof -
    have "outfile ?st = META_PROMPT" using z by (rule scan_and_pack_nothing)
    then show ?thesis using assms z by (simp add: main_def Let_def)
  qed
  have m: "META_PROMPT \<noteq> []" by (simp add: META_PROMPT_def)
  have a: "file_count ?st = 0 \<longrightarrow>
        messages (main e) = console ?st @ [NoMatchingFiles] \<and>
        reports_nothing_packed (messages (main e)) \<and>
        \<not> reports_success (messages (main e)) \<and>
        artifact (main e) = Some (join (getcwd e) OUTPUT_FILENAME, META_PROMPT) \<and>
        META_PROMPT \<noteq> [] \<and>
        prompt_txt (main e) = None \<and> clipboard (main e) = None \<and>
        browser (main e) = None \<and> explorer (main e) = None"
  proof
    assume z: "file_count ?st = 0"
    show "messages (main e) = console ?st @ [NoMatchingFiles] \<and>
        reports_nothing_packed (messages (main e)) \<and>
        \<not> reports_success (messages (main e)) \<and>
        artifact (main e) = Some (join (getcwd e) OUTPUT_FILENAME, META_PROMPT) \<and>
        META_PROMPT \<noteq> [] \<and>
        prompt_txt (main e) = None \<and> clipboard (main e) = None \<and>
        browser (main e) = None \<and> explorer (main e) = None"
      using nv m unfolding zero [OF z]
      by (simp add: quiet_def reports_nothing_packed_def reports_success_iff)
  qed
  have b: "file_count ?st \<noteq> 0 \<longrightarrow>
        reports_success (messages (main e)) \<and>
        \<not> reports_nothing_packed (messages (main e)) \<and>
        prompt_txt (main e) = Some USER_PROMPT \<and>
        browser (main e) = Some GEMINI_URL"
  proof
    assume nz: "file_count ?st \<noteq> 0"
    show "reports_success (messages (main e)) \<and>
        \<not> reports_nothing_packed (messages (main e)) \<and>
        prompt_txt (main e) = Some USER_PROMPT \<and>
        browser (main e) = Some GEMINI_URL"
      using nv assms nz
      by (simp add: main_def Let_def reports_nothing_packed_def reports_success_iff)
  qed
  from a b show ?thesis by (rule conjI)
qed

theorem nothing_packed_is_reported_witness:
  "main \<lparr>arg_path = Some ''/proj'', flag_path = None, context_root = None, getcwd = ''/proj'',
         dir_at = (\<lambda>p. if p = ''/proj'' then Some [File ''photo.png'' (Inr ''x'')] else None),
         open_output_error = None, clipboard_works = True\<rparr> =
   \<lparr>messages = [Scanning ''/proj'', NoMatchingFiles],
    artifact = Some (''/proj/codebase_context.md'', META_PROMPT),
    prompt_txt = None, clipboard = None, browser = None, explorer = None\<rparr> \<and>
   reports_nothing_packed (messages (main \<lparr>arg_path = Some ''/proj'', flag_path = None,
         context_root = None, getcwd = ''/proj'',
         dir_at = (\<lambda>p. if p = ''/proj'' then Some [File ''photo.png'' (Inr ''x'')] else None),
         open_output_error = None, clipboard_works = True\<rparr>)) \<and>
   \<not> reports_success (messages (main \<lparr>arg_path = Some ''/proj'', flag_path = None,
         context_root = None, getcwd = ''/proj'',
         dir_at = (\<lambda>p. if p = ''/proj'' then Some [File ''photo.png'' (Inr ''x'')] else None),
         open_output_error = None, clipboard_works = True\<rparr>))"
proof -
  let ?e = "\<lparr>arg_path = Some ''/proj'', flag_path = None, context_root = None, getcwd = ''/proj'',
         dir_at = (\<lambda>p. if p = ''/proj'' then Some [File ''photo.png'' (Inr ''x'')] else None),
         open_output_error = None, clipboard_works = True\<rparr>"
  have t: "target_path ?e = ''/proj''" by code_simp
  have d: "dir_at ?e (target_path ?e) = Some [File ''photo.png'' (Inr ''x'')]"
    unfolding t by simp
  have o: "open_output_error ?e = None" by simp
  have s: "scan_and_pack ''/proj'' ''/proj'' [File ''photo.png'' (Inr ''x'')] =
      \<lparr>outfile = META_PROMPT, file_count = 0, total_size = 0, console = [Scanning ''/proj'']\<rparr>"
    by code_simp
  have j: "join ''/proj'' OUTPUT_FILENAME = ''/proj/codebase_context.md''" by code_simp
  have z: "file_count (scan_and_pack (getcwd ?e) (target_path ?e) [File ''photo.png'' (Inr ''x'')]) = 0"
    unfolding t by (simp add: s)
  have c: "console (scan_and_pack (getcwd ?e) (target_path ?e) [File ''photo.png'' (Inr ''x'')])
      = [Scanning ''/proj'']"
    unfolding t by (simp add: s)
  note r = nothing_packed_is_reported [OF d o, THEN conjunct1, rule_format, OF z]
  have "main ?e = \<lparr>messages = [Scanning ''/proj'', NoMatchingFiles],
    artifact = Some (''/proj/codebase_context.md'', META_PROMPT),
    prompt_txt = None, clipboard = None, browser = None, explorer = None\<rparr>"
    by (rule outcome.equality) (use r c j t in simp_all)
  moreover have "reports_nothing_packed (messages (main ?e))" using r by blast
  moreover have "\<not> reports_success (messages (main ?e))" using r by blast
  ultimately show ?thesis by (intro conjI)
qed

lemma bracket_end_Some:
  assumes "bracket_end s = Some j"
  shows "j < length s \<and> s ! j = CHR '']''"
proof -
  define j0 where "j0 = (if take 1 s = ''!'' then 1 else 0 :: nat)"
  define j1 where "j1 = (if take 1 (drop j0 s) = '']'' then j0 + 1 else j0)"
  define rest where "rest = drop j1 s"
  define k where "k = length (takeWhile (\<lambda>c. c \<noteq> CHR '']'') rest)"
  have be: "bracket_end s = (if CHR '']'' \<in> set rest then Some (j1 + k) else None)"
    by (simp add: bracket_end_def Let_def j0_def j1_def rest_def k_def)
  with assms have mem: "CHR '']'' \<in> set rest" and j: "j = j1 + k"
    by (auto split: if_splits)
  have "takeWhile (\<lambda>c. c \<noteq> CHR '']'') rest \<noteq> rest"
    using mem by simp
  then have "dropWhile (\<lambda>c. c \<noteq> CHR '']'') rest \<noteq> []"
    using takeWhile_dropWhile_id [of "\<lambda>c. c \<noteq> CHR '']''" rest] by fastforce
  moreover have "length rest =
      length (takeWhile (\<lambda>c. c \<noteq> CHR '']'') rest @ dropWhile (\<lambda>c. c \<noteq> CHR '']'') rest)"
    by (simp only: takeWhile_dropWhile_id)
  then have "length rest = k + length (dropWhile (\<lambda>c. c \<noteq> CHR '']'') rest)"
    unfolding k_def by (simp only: length_append)
  ultimately have "k < length rest" by simp
  moreover have "rest ! k = CHR '']''"
    using mem nth_length_takeWhile [of "\<lambda>c. c \<noteq> CHR '']''" rest]
          \<open>k < length rest\<close> unfolding k_def by blast
  ultimately show ?thesis
    unfolding j rest_def by (auto simp: add.commute)
qed

lemma translate_last:
  assumes "p \<noteq> []" and "last p = CHR ''/''"
  shows "translate p \<noteq> [] \<and> last (translate p) = Lit (CHR ''/'')"
  using assms
proof (induction p rule: translate.induct)
  case 1
  then show ?case by simp
next
  case (2 c rest)
  show ?case
  proof (cases "rest = []")
    case True
    with 2 have "c = CHR ''/''" by simp
    with True show ?thesis by simp
  next
    case False
    then have lr: "last rest = CHR ''/''" using "2.prems" by simp
    show ?thesis
    proof (cases "c = CHR ''['' \<and> bracket_end rest \<noteq> None")
      case True
      then obtain j where j: "bracket_end rest = Some j" by blast
      then have jl: "j < length rest" and jc: "rest ! j = CHR '']''"
        using bracket_end_Some by blast+
      have "j \<noteq> length rest - 1"
      proof
        assume "j = length rest - 1"
        then have "rest ! j = last rest" using False by (simp add: last_conv_nth)
        with jc lr show False by simp
      qed
      with jl have d: "drop (j + 1) rest \<noteq> []" by simp
      then have "last (drop (j + 1) rest) = CHR ''/''" using lr by simp
      with d have "translate (drop (j + 1) rest) \<noteq> [] \<and>
          last (translate (drop (j + 1) rest)) = Lit (CHR ''/'')"
        using "2.IH"(4) [of j] True j by simp
      then show ?thesis using True j by simp
    next
      case nb: False
      have ih: "translate rest \<noteq> [] \<and> last (translate rest) = Lit (CHR ''/'')"
      proof (cases "c = CHR ''*''")
        case True
        then show ?thesis using "2.IH"(1) False lr by simp
      next
        case ns: False
        show ?thesis
        proof (cases "c = CHR ''?''")
          case True
          then show ?thesis using "2.IH"(2) ns False lr by simp
        next
          case nq: False
          show ?thesis
          proof (cases "c = CHR ''[''")
            case True
            with nb have "bracket_end rest = None" by simp
            then show ?thesis using "2.IH"(3) ns nq True False lr by simp
          next
            case nbr: False
            then show ?thesis using "2.IH"(5) ns nq False lr by simp
          qed
        qed
      qed
      show ?thesis
      proof (cases "bracket_end rest")
        case None
        then show ?thesis using ih by simp
      next
        case (Some j)
        with nb have "c \<noteq> CHR ''[''" by simp
        then show ?thesis using ih by simp
      qed
    qed
  qed
qed

lemma glob_match_last:
  assumes "ts \<noteq> []" and "last ts = Lit c" and "glob_match ts s"
  shows "s \<noteq> [] \<and> last s = c"
  using assms
proof (induction ts s rule: glob_match.induct)
  case (2 ts)
  from "2.prems"(2) have "ts \<noteq> []" and "last ts = Lit c" by (auto split: if_splits)
  then show ?case using "2.IH" "2.prems"(3) by simp
next
  case (3 ts x s)
  from "3.prems"(3) have "glob_match ts (x # s) \<or> glob_match (Star # ts) s" by simp
  then show ?case
  proof
    assume m: "glob_match ts (x # s)"
    have "ts \<noteq> []" using "3.prems"(2) by auto
    then show ?thesis using "3.IH"(1) "3.prems"(2) m by simp
  next
    assume m: "glob_match (Star # ts) s"
    have "s \<noteq> [] \<and> last s = c" using "3.IH"(2) "3.prems" m by simp
    then show ?thesis by simp
  qed
next
  case (4 ts x s)
  show ?case
  proof (cases "ts = []")
    case True
    then show ?thesis using "4.prems" by simp
  next
    case False
    then have "s \<noteq> [] \<and> last s = c" using "4.IH" "4.prems" by simp
    then show ?thesis by simp
  qed
next
  case (5 a ts x s)
  show ?case
  proof (cases "ts = []")
    case True
    then show ?thesis using "5.prems" by simp
  next
    case False
    then have "s \<noteq> [] \<and> last s = c" using "5.IH" "5.prems" by simp
    then show ?thesis by simp
  qed
next
  case (6 negated rs ts x s)
  show ?case
  proof (cases "ts = []")
    case True
    then show ?thesis using "6.prems" by simp
  next
    case False
    then have "s \<noteq> [] \<and> last s = c" using "6.IH" "6.prems" by simp
    then show ?thesis by simp
  qed
qed simp_all

lemma fnmatch_dir_pattern:
  assumes "endswith pat ''/''" and "fnmatch s pat"
  shows "s \<noteq> [] \<and> last s = CHR ''/''"
proof -
  from assms(1) have "pat \<noteq> []" and "last pat = CHR ''/''"
    by (simp_all add: endswith_single)
  then have "translate pat \<noteq> [] \<and> last (translate pat) = Lit (CHR ''/'')"
    by (rule translate_last)
  then show ?thesis using assms(2) glob_match_last unfolding fnmatch_def by blast
qed

lemma basename_no_sep: "os_sep \<notin> set (basename p)"
proof (cases "os_sep \<in> set p")
  case False
  then show ?thesis by (simp add: basename_def rfind_def)
next
  case True
  then obtain s t where p: "p = s @ os_sep # t" and t: "os_sep \<notin> set t"
    by (meson split_list_last)
  have "rfind (s @ os_sep # t) os_sep = int (length s)" using t by (rule rfind_last_occurrence)
  moreover have "nat (int (length s) + 1) = Suc (length s)" by simp
  ultimately show ?thesis using t by (simp add: p basename_def)
qed

lemma split_no_sep: "w \<in> set (split sep s) \<Longrightarrow> sep \<notin> set w"
proof (induction s arbitrary: w)
  case Nil
  then show ?case by simp
next
  case (Cons c cs)
  show ?case
  proof (cases "c = sep")
    case True
    then show ?thesis using Cons by auto
  next
    case False
    show ?thesis
    proof (cases "split sep cs")
      case Nil
      then show ?thesis using Cons.prems False by simp
    next
      case (Cons v vs)
      then have "sep \<notin> set v" and "\<And>u. u \<in> set vs \<Longrightarrow> sep \<notin> set u"
        using Cons.IH by simp_all
      then show ?thesis using Cons.prems False Cons by auto
    qed
  qed
qed

lemma join_last:
  assumes "b \<noteq> []" and "os_sep \<notin> set b"
  shows "join a b \<noteq> [] \<and> last (join a b) \<noteq> os_sep"
proof -
  have "\<not> startswith b [os_sep]" using assms by (cases b) (auto simp: startswith_def)
  moreover have "last b \<noteq> os_sep" using assms last_in_set by metis
  ultimately show ?thesis using assms(1) by (simp add: join_def)
qed

lemma foldl_join_last:
  assumes "a \<noteq> []" and "last a \<noteq> os_sep" and "\<And>b. b \<in> set bs \<Longrightarrow> b \<noteq> [] \<and> os_sep \<notin> set b"
  shows "foldl join a bs \<noteq> [] \<and> last (foldl join a bs) \<noteq> os_sep"
  using assms
proof (induction bs arbitrary: a)
  case Nil
  then show ?case by simp
next
  case (Cons b bs)
  have "join a b \<noteq> [] \<and> last (join a b) \<noteq> os_sep"
    using Cons.prems(3) [of b] by (simp add: join_last)
  then show ?case using Cons.IH [of "join a b"] Cons.prems(3) by simp
qed

lemma relpath_last:
  "relpath cwd path start \<noteq> [] \<and> last (relpath cwd path start) \<noteq> os_sep"
proof -
  define start_list where "start_list = filter (\<lambda>x. x \<noteq> []) (split os_sep (abspath cwd start))"
  define path_list where "path_list = filter (\<lambda>x. x \<noteq> []) (split os_sep (abspath cwd path))"
  define i where "i = length (commonprefix start_list path_list)"
  define rel_list where "rel_list = replicate (length start_list - i) ''..'' @ drop i path_list"
  have r: "relpath cwd path start =
      (if rel_list = [] then ''.'' else foldl join (hd rel_list) (tl rel_list))"
    by (simp add: relpath_def Let_def start_list_def path_list_def i_def rel_list_def)
  have pl: "b \<noteq> [] \<and> os_sep \<notin> set b" if "b \<in> set path_list" for b
    using that split_no_sep [of b os_sep "abspath cwd path"] by (simp add: path_list_def)
  have good: "b \<noteq> [] \<and> os_sep \<notin> set b" if "b \<in> set rel_list" for b
  proof -
    from that have "b = ''..'' \<or> b \<in> set (drop i path_list)"
      by (auto simp: rel_list_def)
    then show ?thesis
    proof
      assume "b = ''..''"
      then show ?thesis by (simp add: os_sep_def)
    next
      assume "b \<in> set (drop i path_list)"
      then have "b \<in> set path_list" by (rule in_set_dropD)
      then show ?thesis by (rule pl)
    qed
  qed
  show ?thesis
  proof (cases "rel_list = []")
    case True
    then show ?thesis by (simp add: r os_sep_def)
  next
    case False
    then obtain h t where ht: "rel_list = h # t" by (cases rel_list) auto
    have h: "h \<noteq> [] \<and> os_sep \<notin> set h" using good [of h] ht by simp
    then have "last h \<noteq> os_sep" using last_in_set by metis
    moreover have "\<And>b. b \<in> set t \<Longrightarrow> b \<noteq> [] \<and> os_sep \<notin> set b"
      using good ht by simp
    ultimately have "foldl join h t \<noteq> [] \<and> last (foldl join h t) \<noteq> os_sep"
      using h by (intro foldl_join_last) simp_all
    then show ?thesis by (simp add: r ht)
  qed
qed

lemma replace_sep_id: "replace_char s os_sep (CHR ''/'') = s"
  by (simp add: replace_char_def os_sep_def map_idI)

lemma dir_pattern_spares_files:
  assumes "endswith p ''/''"
  shows "\<not> pattern_match (replace_char (relpath cwd path root_path) os_sep (CHR ''/''))
            (basename path) False p"
proof
  assume "pattern_match (replace_char (relpath cwd path root_path) os_sep (CHR ''/''))
            (basename path) False p"
  then have "fnmatch (relpath cwd path root_path) p \<or> fnmatch (basename path) p"
    by (simp add: pattern_match_def replace_sep_id)
  then show False
  proof
    assume "fnmatch (relpath cwd path root_path) p"
    with assms have "last (relpath cwd path root_path) = CHR ''/''"
      using fnmatch_dir_pattern by blast
    then show False using relpath_last [of cwd path root_path] by (simp add: os_sep_def)
  next
    assume "fnmatch (basename path) p"
    with assms have "basename path \<noteq> [] \<and> last (basename path) = CHR ''/''"
      using fnmatch_dir_pattern by blast
    then have "CHR ''/'' \<in> set (basename path)" using last_in_set by metis
    then show False using basename_no_sep [of path] by (simp add: os_sep_def)
  qed
qed

text \<open>
  C1. A loaded pattern that ends with \<open>/\<close> never matches a path that is not a
  directory: for a file, \<open>is_ignored\<close> gives the same answer as it does with all such
  patterns taken out of the list, and when every loaded pattern ends with \<open>/\<close> only
  the default rules can ignore the file. So when \<open>is_ignored\<close> is true with the one
  pattern \<open>p\<close> ending in \<open>/\<close>, the path is a directory or a default rule applies.
\<close>

theorem trailing_slash_pattern_only_directories:
  "(endswith p ''/'' \<longrightarrow>
      \<not> pattern_match (replace_char (relpath cwd path root_path) os_sep (CHR ''/''))
          (basename path) False p) \<and>
   is_ignored cwd False path root_path pats =
     is_ignored cwd False path root_path (filter (\<lambda>p. \<not> endswith p ''/'') pats) \<and>
   ((\<forall>q \<in> set pats. endswith q ''/'') \<longrightarrow>
      is_ignored cwd False path root_path pats = default_ignored (basename path)) \<and>
   (endswith p ''/'' \<and> is_ignored cwd isdir path root_path [p] \<longrightarrow>
      isdir \<or> default_ignored (basename path))"
proof -
  let ?rel = "replace_char (relpath cwd path root_path) os_sep (CHR ''/'')"
  have a: "endswith q ''/'' \<longrightarrow> \<not> pattern_match ?rel (basename path) False q" for q
    using dir_pattern_spares_files by blast
  have g: "gitignore_match pats ?rel (basename path) False =
      gitignore_match (filter (\<lambda>p. \<not> endswith p ''/'') pats) ?rel (basename path) False"
    unfolding gitignore_match_def using a by auto
  have b: "is_ignored cwd False path root_path pats =
     is_ignored cwd False path root_path (filter (\<lambda>p. \<not> endswith p ''/'') pats)"
    unfolding is_ignored_iff g ..
  have c: "(\<forall>q \<in> set pats. endswith q ''/'') \<longrightarrow>
      is_ignored cwd False path root_path pats = default_ignored (basename path)"
    unfolding is_ignored_iff gitignore_match_def using a by blast
  have d: "endswith p ''/'' \<and> is_ignored cwd isdir path root_path [p] \<longrightarrow>
      isdir \<or> default_ignored (basename path)"
  proof (cases isdir)
    case True
    then show ?thesis by simp
  next
    case False
    then show ?thesis
      unfolding is_ignored_iff gitignore_match_def using a [of p] by auto
  qed
  from a [of p] b c d show ?thesis by (intro conjI)
qed

theorem trailing_slash_pattern_only_directories_witness:
  "endswith ''out/'' ''/'' \<and>
   is_ignored ''/'' True ''/proj/src/out'' ''/proj'' [''out/''] \<and>
   \<not> is_ignored ''/'' False ''/proj/src/out'' ''/proj'' [''out/''] \<and>
   \<not> default_ignored (basename ''/proj/src/out'') \<and>
   is_ignored ''/'' False ''/proj/tmp'' ''/proj'' [''out/'', ''tmp''] \<and>
   is_ignored ''/'' False ''/proj/tmp'' ''/proj'' (filter (\<lambda>p. \<not> endswith p ''/'') [''out/'', ''tmp''])"
proof -
  have e: "endswith ''out/'' ''/''" by code_simp
  have i: "is_ignored ''/'' True ''/proj/src/out'' ''/proj'' [''out/'']" by code_simp
  have n: "\<not> default_ignored (basename ''/proj/src/out'')" by code_simp
  have t: "is_ignored ''/'' False ''/proj/tmp'' ''/proj'' [''out/'', ''tmp'']" by code_simp
  have q: "\<forall>q \<in> set [''out/'']. endswith q ''/''" using e by simp
  note th = trailing_slash_pattern_only_directories
  have f: "\<not> is_ignored ''/'' False ''/proj/src/out'' ''/proj'' [''out/'']"
    using th [of "''out/''" "''/''" "''/proj/src/out''" "''/proj''" "[''out/'']" False] q n
    by blast
  have u: "is_ignored ''/'' False ''/proj/tmp'' ''/proj'' (filter (\<lambda>p. \<not> endswith p ''/'') [''out/'', ''tmp''])"
    using th [of "''out/''" "''/''" "''/proj/tmp''" "''/proj''" "[''out/'', ''tmp'']" False] t
    by blast
  from e i f n t u show ?thesis by (intro conjI)
qed

lemma default_ignored_is_ignored:
  "default_ignored (basename path) \<Longrightarrow> is_ignored cwd isdir path root_path pats"
  by (simp add: is_ignored_iff)

lemma scan_files_empty_ignored:
  "scan_files cwd root pats dirpath (empty_ignored dp es) st =
   scan_files cwd root pats dirpath es st"
  by (induction es arbitrary: st rule: entry_list_induct) simp_all

lemma walk_dirs_empty_ignored:
  "walk_dirs cwd root pats dirpath (empty_ignored dirpath es) st =
   walk_dirs cwd root pats dirpath es st"
proof (induction es arbitrary: dirpath st rule: entry_list_induct)
  case Nil
  show ?case by simp
next
  case (File n rd es)
  then show ?case by simp
next
  case (Dir d sub es)
  show ?case
  proof (cases "default_ignored (basename (join dirpath d))")
    case True
    then have "is_ignored cwd True (join dirpath d) root pats"
      by (rule default_ignored_is_ignored)
    then show ?thesis using True Dir.IH(2) by simp
  next
    case False
    have "walk cwd root pats (join dirpath d) (empty_ignored (join dirpath d) sub) st =
          walk cwd root pats (join dirpath d) sub st"
      by (simp add: walk.simps scan_files_empty_ignored Dir.IH(1))
    then show ?thesis using False Dir.IH(2) by simp
  qed
qed

lemma load_gitignore_empty_ignored:
  "load_gitignore (empty_ignored dp es) = load_gitignore es"
  by (induction es rule: entry_list_induct) (simp_all add: load_gitignore_def)

lemma scan_and_pack_empty_ignored:
  "scan_and_pack cwd root_path (empty_ignored root_path es) = scan_and_pack cwd root_path es"
  by (simp add: scan_and_pack_def load_gitignore_empty_ignored walk.simps
        scan_files_empty_ignored walk_dirs_empty_ignored)

text \<open>
  C3, as amended. Below the root of the traversal, a directory whose base name is ignored
  by default (by membership or by a default pattern with \<open>*\<close>) is removed from
  \<open>dirnames\<close> and never walked: the traversal continues with the next entry in the
  state it had. So two trees that are the same once every such directory is emptied, at
  any depth, give the same run: the same output text, count, size and console. The root
  itself is not tested.
\<close>

theorem default_ignored_directories_pruned:
  "(default_ignored (basename (join dirpath d)) \<longrightarrow>
      is_ignored cwd True (join dirpath d) root_path pats \<and>
      walk_dirs cwd root_path pats dirpath (Dir d sub # es) st =
        walk_dirs cwd root_path pats dirpath es st) \<and>
   (os_sep \<notin> set d \<longrightarrow> basename (join dirpath d) = d) \<and>
   (empty_ignored root_path root' = empty_ignored root_path root \<longrightarrow>
      scan_and_pack cwd root_path root' = scan_and_pack cwd root_path root)"
proof -
  have a: "default_ignored (basename (join dirpath d)) \<longrightarrow>
      is_ignored cwd True (join dirpath d) root_path pats \<and>
      walk_dirs cwd root_path pats dirpath (Dir d sub # es) st =
        walk_dirs cwd root_path pats dirpath es st"
    by (simp add: default_ignored_is_ignored)
  have b: "os_sep \<notin> set d \<longrightarrow> basename (join dirpath d) = d"
    by (simp add: basename_join)
  have c: "empty_ignored root_path root' = empty_ignored root_path root \<longrightarrow>
      scan_and_pack cwd root_path root' = scan_and_pack cwd root_path root"
  proof
    assume e: "empty_ignored root_path root' = empty_ignored root_path root"
    have "scan_and_pack cwd root_path root' =
          scan_and_pack cwd root_path (empty_ignored root_path root')"
      by (simp add: scan_and_pack_empty_ignored)
    also have "\<dots> = scan_and_pack cwd root_path (empty_ignored root_path root)"
      by (simp add: e)
    also have "\<dots> = scan_and_pack cwd root_path root"
      by (rule scan_and_pack_empty_ignored)
    finally show "scan_and_pack cwd root_path root' = scan_and_pack cwd root_path root" .
  qed
  from a b c show ?thesis by (intro conjI)
qed

theorem default_ignored_directories_pruned_witness:
  "default_ignored (basename (join ''/proj/src'' ''node_modules'')) \<and>
   default_ignored (basename (join ''/proj'' ''server.log'')) \<and>
   scan_and_pack ''/'' ''/proj''
     [File ''a.py'' (Inr ''x''),
      Dir ''src'' [Dir ''node_modules'' [Dir ''pkg'' [File ''index.js'' (Inr ''big'')]],
                  File ''b.py'' (Inr ''y'')],
      Dir ''server.log'' [File ''c.py'' (Inr ''z'')]] =
   scan_and_pack ''/'' ''/proj''
     [File ''a.py'' (Inr ''x''),
      Dir ''src'' [Dir ''node_modules'' [], File ''b.py'' (Inr ''y'')],
      Dir ''server.log'' []] \<and>
   console (scan_and_pack ''/'' ''/proj''
     [File ''a.py'' (Inr ''x''),
      Dir ''src'' [Dir ''node_modules'' [Dir ''pkg'' [File ''index.js'' (Inr ''big'')]],
                  File ''b.py'' (Inr ''y'')],
      Dir ''server.log'' [File ''c.py'' (Inr ''z'')]]) =
   [Scanning ''/proj'', Packed ''a.py'', Packed ''src/b.py'']"
proof -
  have d1: "default_ignored (basename (join ''/proj/src'' ''node_modules''))" by code_simp
  have d2: "default_ignored (basename (join ''/proj'' ''server.log''))" by code_simp
  have d3: "\<not> default_ignored (basename (join ''/proj'' ''src''))" by code_simp
  have e: "empty_ignored ''/proj''
     [File ''a.py'' (Inr ''x''),
      Dir ''src'' [Dir ''node_modules'' [Dir ''pkg'' [File ''index.js'' (Inr ''big'')]],
                  File ''b.py'' (Inr ''y'')],
      Dir ''server.log'' [File ''c.py'' (Inr ''z'')]] =
    empty_ignored ''/proj''
     [File ''a.py'' (Inr ''x''),
      Dir ''src'' [Dir ''node_modules'' [], File ''b.py'' (Inr ''y'')],
      Dir ''server.log'' []]"
  proof -
    have j: "join ''/proj'' ''src'' = ''/proj/src''" by code_simp
    show ?thesis using d1 d2 d3 by (simp add: j)
  qed
  have c: "console (scan_and_pack ''/'' ''/proj''
     [File ''a.py'' (Inr ''x''),
      Dir ''src'' [Dir ''node_modules'' [Dir ''pkg'' [File ''index.js'' (Inr ''big'')]],
                  File ''b.py'' (Inr ''y'')],
      Dir ''server.log'' [File ''c.py'' (Inr ''z'')]]) =
   [Scanning ''/proj'', Packed ''a.py'', Packed ''src/b.py'']" by code_simp
  note th = default_ignored_directories_pruned [of "''/proj''" "''src''" "''/''" "''/proj''" "[]" "[]" "[]"
      "\<lparr>outfile = [], file_count = 0, total_size = 0, console = []\<rparr>", THEN conjunct2, THEN conjunct2,
      rule_format, OF e]
  from d1 d2 th c show ?thesis by (intro conjI)
qed

text \<open>
  The claim C3 as it is worded fails at the root: a root directory named \<open>build\<close> has
  an ignored base name, and the file in it is packed.
\<close>

theorem ignored_root_counterexample:
  "default_ignored (basename ''/proj/build'') \<and>
   scan_and_pack ''/'' ''/proj/build'' [File ''a.py'' (Inr ''x'')] =
     \<lparr>outfile = META_PROMPT @ section_text ''a.py'' ''x'', file_count = 1, total_size = 1,
      console = [Scanning ''/proj/build'', Packed ''a.py'']\<rparr>"
  by code_simp

end
